theory Spec2Isabelle
  imports Main "HOL-Library.AList"
begin

section \<open>Values, dictionaries and errors\<close>

text \<open>
  The specification handed to \<open>get_combinations\<close> is a tree of Python values.  A
  dictionary is an association list in insertion order with distinct keys; all keys are
  strings (the code calls \<open>name.split\<close> on every parameter name).  Scalars are \<open>None\<close>,
  integers and strings; the code treats every non-list, non-mapping value alike, so
  booleans and floats are left out.
\<close>

datatype val =
    VNone
  | VInt int
  | VStr string
  | VList "val list"
  | VDict "(string \<times> val) list"

type_synonym dict = "(string \<times> val) list"

text \<open>
  The exceptions the module can raise.  The four \<open>ValueError\<close>s carry their message as a
  tag; \<open>Template_not_found v\<close> is \<open>f"Template {value} not found in parameters."\<close>.
\<close>

datatype value_error =
    No_main_loop
  | Parallel_outer_loops
  | No_inner_loops
  | Template_not_found val
  | Zip_mismatch

datatype error =
    ValueError value_error
  | KeyError string
  | IndexError
  | TypeError
  | AttributeError
  | RecursionError

definition is_dict :: "val \<Rightarrow> bool" where
  "is_dict v = (case v of VDict _ \<Rightarrow> True | _ \<Rightarrow> False)"

text \<open>\<open>d[k] = v\<close>: an existing key keeps its position, a new key goes to the end.\<close>

definition dict_set :: "string \<Rightarrow> val \<Rightarrow> dict \<Rightarrow> dict" where
  "dict_set k v d = AList.update k v d"

text \<open>\<open>d.pop(k, default)\<close>: the value (or the default) and the dictionary without the key.\<close>

definition dict_pop :: "string \<Rightarrow> val \<Rightarrow> dict \<Rightarrow> val \<times> dict" where
  "dict_pop k dflt d = ((case map_of d k of None \<Rightarrow> dflt | Some v \<Rightarrow> v), AList.delete k d)"

text \<open>\<open>a | b\<close> and \<open>a |= b\<close>: the entries of \<open>b\<close> are stored into \<open>a\<close> one by one.\<close>

definition dict_merge :: "dict \<Rightarrow> dict \<Rightarrow> dict" where
  "dict_merge a b = foldl (\<lambda>d (k, v). dict_set k v d) a b"

text \<open>\<open>dict(zip(names, values))\<close>.\<close>

definition dict_of_zip :: "string list \<Rightarrow> val list \<Rightarrow> dict" where
  "dict_of_zip names vs = dict_merge [] (zip names vs)"

section \<open>Strings\<close>

text \<open>
  \<open>s.split(sep)\<close> for a non-empty separator: scan from the left; \<open>acc\<close> is the current
  piece, reversed, and \<open>skip\<close> counts the characters of a separator still to be dropped.
\<close>

fun split_go :: "string \<Rightarrow> string \<Rightarrow> nat \<Rightarrow> string \<Rightarrow> string list" where
  "split_go sep acc skip [] = [rev acc]"
| "split_go sep acc (Suc k) (c # cs) = split_go sep acc k cs"
| "split_go sep acc 0 (c # cs) =
     (if take (length sep) (c # cs) = sep
      then rev acc # split_go sep [] (length sep - 1) cs
      else split_go sep (c # acc) 0 cs)"

definition py_split :: "string \<Rightarrow> string \<Rightarrow> string list" where
  "py_split sep s = split_go sep [] 0 s"

text \<open>\<open>name.split("#")[0]\<close>.\<close>

definition pure_name :: "string \<Rightarrow> string" where
  "pure_name name = hd (py_split ''#'' name)"

text \<open>\<open>str(n)\<close> for a non-negative integer, as the f-strings \<open>f"__index_{i}"\<close> need it.\<close>

definition digit_char :: "nat \<Rightarrow> char" where
  "digit_char d = char_of (48 + d)"

function str_nat :: "nat \<Rightarrow> string" where
  "str_nat n = (if n < 10 then [digit_char n] else str_nat (n div 10) @ [digit_char (n mod 10)])"
  by pat_completeness auto
termination
  by (relation "measure id") auto

declare str_nat.simps [simp del]

definition index_key :: "nat \<Rightarrow> string" where
  "index_key i = ''__index_'' @ str_nat i"

section \<open>Parameter combination\<close>

text \<open>
  \<open>ParameterCombination.__init__\<close>: every value becomes a list; \<open>names\<close> and \<open>values\<close> are
  the keys and the lists, kept here as one list of pairs.
\<close>

type_synonym parameter_combination = "(string \<times> val list) list"

definition as_list :: "val \<Rightarrow> val list" where
  "as_list v = (case v of VList xs \<Rightarrow> xs | _ \<Rightarrow> [v])"

definition ParameterCombination :: "dict \<Rightarrow> parameter_combination" where
  "ParameterCombination parameters = map (\<lambda>(k, v). (k, as_list v)) parameters"

definition shape :: "parameter_combination \<Rightarrow> nat list" where
  "shape pc = map length (filter (\<lambda>vs. length vs > 1) (map snd pc))"

definition get_zip_group :: "string \<Rightarrow> string option" where
  "get_zip_group name =
     (let m = py_split ''#zip_'' name
      in if length m > 1 then Some (hd (py_split ''#'' (m ! 1))) else None)"

definition zip_groups :: "parameter_combination \<Rightarrow> string option list" where
  "zip_groups pc = map (\<lambda>(name, vs). get_zip_group name) (filter (\<lambda>(name, vs). length vs > 1) pc)"

text \<open>
  \<open>get_zip_index\<close>.  The array of shape \<open>shape\<close> is kept flattened in C order: one boolean
  per multi-index, the multi-indices enumerated with the first axis slowest.  An axis gets
  \<open>range(ndim)\<close> when \<open>name and name == zip_group\<close> (so neither \<open>None\<close> nor the empty
  string selects) and \<open>slice(None)\<close> otherwise.  The assignment broadcasts the ranges against
  each other: every length is at least 2, so they broadcast exactly when they are equal,
  and then the entries set are those whose positions on the selected axes coincide;
  otherwise numpy raises \<open>IndexError\<close>, which the method turns into the \<open>ValueError\<close>.
  (numpy's bound on the number of axes of an array, and memory, are not modelled.)
\<close>

definition selects :: "string option \<Rightarrow> string option \<Rightarrow> bool" where
  "selects zip_group name = (name \<noteq> None \<and> name \<noteq> Some [] \<and> name = zip_group)"

definition all_equal :: "nat list \<Rightarrow> bool" where
  "all_equal ns = list_all (\<lambda>n. n = hd ns) ns"

definition multi_indices :: "nat list \<Rightarrow> nat list list" where
  "multi_indices shp = product_lists (map (\<lambda>n. [0..<n]) shp)"

definition on_diagonal :: "bool list \<Rightarrow> nat list \<Rightarrow> bool" where
  "on_diagonal sel idx = all_equal (map snd (filter fst (zip sel idx)))"

definition get_zip_index :: "parameter_combination \<Rightarrow> string option \<Rightarrow> error + bool list" where
  "get_zip_index pc zip_group =
     (let sel = map (selects zip_group) (zip_groups pc)
      in if all_equal (map snd (filter fst (zip sel (shape pc))))
         then Inr (map (on_diagonal sel) (multi_indices (shape pc)))
         else Inl (ValueError Zip_mismatch))"

text \<open>
  \<open>combination_index\<close> followed by \<open>.flatten()\<close>: one index array per swept parameter (the
  list comprehension stops at the first that raises), reduced with logical and.  Reducing
  the empty list gives the scalar \<open>True\<close>, which flattens to \<open>[True]\<close>.
\<close>

fun collect_indices :: "parameter_combination \<Rightarrow> string option list \<Rightarrow> error + bool list list" where
  "collect_indices pc [] = Inr []"
| "collect_indices pc (g # gs) =
     (case get_zip_index pc g of
        Inl e \<Rightarrow> Inl e
      | Inr ix \<Rightarrow> (case collect_indices pc gs of Inl e \<Rightarrow> Inl e | Inr ixs \<Rightarrow> Inr (ix # ixs)))"

definition logical_and_reduce :: "bool list list \<Rightarrow> bool list" where
  "logical_and_reduce indices =
     (case indices of [] \<Rightarrow> [True]
      | ix # ixs \<Rightarrow> foldl (\<lambda>a b. map (\<lambda>(x, y). x \<and> y) (zip a b)) ix ixs)"

definition combination_index :: "parameter_combination \<Rightarrow> error + bool list" where
  "combination_index pc =
     (case collect_indices pc (zip_groups pc) of
        Inl e \<Rightarrow> Inl e
      | Inr indices \<Rightarrow> Inr (logical_and_reduce indices))"

text \<open>
  \<open>combinations\<close>: the cartesian product of all value lists, each tuple zipped with the
  pure names, then indexed with the boolean mask.  A boolean mask whose length differs from
  the array's (this happens exactly when some value list is empty) raises \<open>IndexError\<close>.
\<close>

definition all_combinations :: "parameter_combination \<Rightarrow> dict list" where
  "all_combinations pc =
     map (dict_of_zip (map (pure_name \<circ> fst) pc)) (product_lists (map snd pc))"

definition combinations :: "parameter_combination \<Rightarrow> error + dict list" where
  "combinations pc =
     (let cs = all_combinations pc
      in case combination_index pc of
           Inl e \<Rightarrow> Inl e
         | Inr i_valid \<Rightarrow>
             if length i_valid = length cs
             then Inr (map fst (filter snd (zip cs i_valid)))
             else Inl IndexError)"

section \<open>Indexed combinations\<close>

text \<open>A \<open>for\<close> loop whose body can raise: the first exception ends it.\<close>

fun map_err :: "('a \<Rightarrow> error + 'b) \<Rightarrow> 'a list \<Rightarrow> error + 'b list" where
  "map_err f [] = Inr []"
| "map_err f (x # xs) =
     (case f x of
        Inl e \<Rightarrow> Inl e
      | Inr y \<Rightarrow> (case map_err f xs of Inl e \<Rightarrow> Inl e | Inr ys \<Rightarrow> Inr (y # ys)))"

text \<open>\<open>d[k]\<close>.\<close>

definition dict_get :: "dict \<Rightarrow> string \<Rightarrow> error + val" where
  "dict_get d k = (case map_of d k of None \<Rightarrow> Inl (KeyError k) | Some v \<Rightarrow> Inr v)"

text \<open>
  The body of the loop of \<open>_get_indexed_combinations\<close> for position \<open>i\<close>: the per-level
  index is stored first, and the composite index is read back from the combination.
\<close>

definition index_combination :: "nat \<Rightarrow> nat option \<Rightarrow> nat \<times> dict \<Rightarrow> error + dict" where
  "index_combination i_level i_inner ic =
     (let c = dict_set (index_key i_level) (VInt (int (fst ic))) (snd ic)
      in case i_inner of
           None \<Rightarrow> Inr c
         | Some t \<Rightarrow>
             (case map_err (dict_get c) (map index_key [0..<i_level + 1]) of
                Inl e \<Rightarrow> Inl e
              | Inr ixs \<Rightarrow>
                  Inr (dict_set ''__index_test'' (VInt (int t)) (dict_set ''__index'' (VList ixs) c))))"

definition get_indexed_combinations ::
  "parameter_combination \<Rightarrow> nat \<Rightarrow> nat option \<Rightarrow> error + dict list" where
  "get_indexed_combinations pc i_level i_inner =
     (case combinations pc of
        Inl e \<Rightarrow> Inl e
      | Inr cs \<Rightarrow> map_err (index_combination i_level i_inner) (enumerate 0 cs))"

section \<open>Validity check\<close>

definition dict_children :: "dict \<Rightarrow> (string \<times> dict) list" where
  "dict_children d = concat (map (\<lambda>(k, v). case v of VDict c \<Rightarrow> [(k, c)] | _ \<Rightarrow> []) d)"

definition has_dict_value :: "dict \<Rightarrow> bool" where
  "has_dict_value d = list_ex (\<lambda>(k, v). is_dict v) d"

lemma dict_children_size:
  "(k, c) \<in> set (dict_children d) \<Longrightarrow> size (VDict c) < size (VDict d)"
proof (induction d)
  case Nil
  then show ?case by (simp add: dict_children_def)
next
  case (Cons a d)
  obtain k' v where a: "a = (k', v)" by (cases a)
  show ?case
  proof (cases "(k, c) \<in> set (dict_children d)")
    case True
    with Cons.IH show ?thesis by simp
  next
    case False
    with Cons.prems a have "v = VDict c"
      by (auto simp: dict_children_def split: val.splits)
    with a show ?thesis by simp
  qed
qed

text \<open>
  The \<open>while\<close> loop of \<open>check_validity\<close>.  \<open>any(next_loop)\<close> asks whether some child
  mapping is non-empty.
\<close>

function validity_loop :: "dict \<Rightarrow> error + unit" where
  "validity_loop outer_loop =
     (let next_loop = map snd (dict_children outer_loop)
      in if list_ex (\<lambda>c. c \<noteq> []) next_loop
         then if length next_loop > 1 \<and> list_ex has_dict_value next_loop
              then Inl (ValueError Parallel_outer_loops)
              else validity_loop (hd next_loop)
         else Inr ())"
  by pat_completeness auto
termination
proof (relation "measure (\<lambda>d. size (VDict d))")
  show "wf (measure (\<lambda>d. size (VDict d)))" by simp
next
  fix outer_loop :: dict and next_loop
  assume n: "next_loop = map snd (dict_children outer_loop)"
    and ex: "list_ex (\<lambda>c. c \<noteq> []) next_loop"
  from ex have "next_loop \<noteq> []" by auto
  then have "hd next_loop \<in> set next_loop" by simp
  with n obtain k where "(k, hd next_loop) \<in> set (dict_children outer_loop)" by auto
  then show "(hd next_loop, outer_loop) \<in> measure (\<lambda>d. size (VDict d))"
    using dict_children_size by simp
qed

declare validity_loop.simps [simp del]

definition check_validity :: "dict \<Rightarrow> error + unit" where
  "check_validity parameters =
     (case map_of parameters ''main'' of
        None \<Rightarrow> Inl (ValueError No_main_loop)
      | Some (VDict outer_loop) \<Rightarrow> validity_loop outer_loop
      | Some _ \<Rightarrow> Inl AttributeError)"

section \<open>Template resolution\<close>

text \<open>
  The functions from here on mutate the caller's specification (\<open>pop\<close>, item assignment),
  so each takes the specification and returns it, updated, beside its result; an exception
  leaves the mutations made before it in place.  A level or a leaf test that the code
  holds in a variable while it changes the specification is written back at its place by
  the model.  Values are trees, and the specification passed in is taken to be one too
  (no mapping occurs in it twice); the one place where the code then makes a mapping
  occur twice, a template name that is the entry point itself, is dealt with where the
  skeleton is copied.

  \<open>for item in lst\<close>: a list gives its elements, a string its characters, a mapping its
  keys; \<open>None\<close> and integers are not iterable.
\<close>

definition py_iter :: "val \<Rightarrow> error + val list" where
  "py_iter v =
     (case v of
        VList xs \<Rightarrow> Inr xs
      | VStr s \<Rightarrow> Inr (map (\<lambda>c. VStr [c]) s)
      | VDict d \<Rightarrow> Inr (map (VStr \<circ> fst) d)
      | _ \<Rightarrow> Inl TypeError)"

fun flatten_multidimensional_list :: "val list \<Rightarrow> val list" where
  "flatten_multidimensional_list [] = []"
| "flatten_multidimensional_list (VList xs # rest) =
     flatten_multidimensional_list xs @ flatten_multidimensional_list rest"
| "flatten_multidimensional_list (x # rest) = x # flatten_multidimensional_list rest"

text \<open>
  The body of the loop of \<open>fill_template\<close> for one entry.  Inside the \<open>try\<close>:
  \<open>parameters[value]\<close> raises \<open>KeyError\<close> for an unknown name (every key is a string, so
  also for an integer entry); \<open>p.pop('setup', None)\<close> raises \<open>TypeError\<close> on a list (its \<open>pop\<close>
  takes one argument) and \<open>AttributeError\<close> on \<open>None\<close>, an integer or a string (they have no
  \<open>pop\<close>).  The handler catches \<open>TypeError\<close> and \<open>KeyError\<close> only.
\<close>

definition fill_value :: "dict \<Rightarrow> val \<Rightarrow> (error + val) \<times> dict" where
  "fill_value parameters v =
     (if v = VNone \<or> is_dict v then (Inr v, parameters)
      else case v of
        VStr name \<Rightarrow>
          (case map_of parameters name of
             None \<Rightarrow> (Inl (ValueError (Template_not_found v)), parameters)
           | Some (VDict p) \<Rightarrow>
               (let p' = snd (dict_pop ''teardown'' VNone (snd (dict_pop ''setup'' VNone p)));
                    parameters' = dict_set name (VDict p') parameters
                in case combinations (ParameterCombination p') of
                     Inl e \<Rightarrow> (Inl e, parameters')
                   | Inr cs \<Rightarrow> (Inr (VList (map VDict cs)), parameters'))
           | Some (VList _) \<Rightarrow> (Inl (ValueError (Template_not_found v)), parameters)
           | Some _ \<Rightarrow> (Inl AttributeError, parameters))
      | _ \<Rightarrow> (Inl (ValueError (Template_not_found v)), parameters))"

fun fill_values :: "dict \<Rightarrow> val list \<Rightarrow> (error + val list) \<times> dict" where
  "fill_values parameters [] = (Inr [], parameters)"
| "fill_values parameters (v # vs) =
     (case fill_value parameters v of
        (Inl e, ps) \<Rightarrow> (Inl e, ps)
      | (Inr x, ps) \<Rightarrow>
          (case fill_values ps vs of
             (Inl e, ps') \<Rightarrow> (Inl e, ps')
           | (Inr xs, ps') \<Rightarrow> (Inr (x # xs), ps')))"

definition fill_template :: "dict \<Rightarrow> val \<Rightarrow> (error + val list) \<times> dict" where
  "fill_template parameters values =
     (if values = VNone then (Inr [], parameters)
      else case py_iter values of
             Inl e \<Rightarrow> (Inl e, parameters)
           | Inr items \<Rightarrow> fill_values parameters (flatten_multidimensional_list items))"

section \<open>Skeleton extraction\<close>

record loop_skeleton =
  setups :: "val list"
  teardowns :: "val list"
  yield_values :: val
  tests :: "dict list"
  outer_combinations :: "dict list list"

text \<open>
  A level or a leaf test is a mapping inside the specification; the model names it by the
  keys that lead to it from the root, and \<open>set_at\<close> writes its new value back there.
\<close>

fun set_at :: "string list \<Rightarrow> dict \<Rightarrow> dict \<Rightarrow> dict" where
  "set_at [] new d = new"
| "set_at (k # ks) new d =
     (case map_of d k of
        Some (VDict sub) \<Rightarrow> dict_set k (VDict (set_at ks new sub)) d
      | _ \<Rightarrow> d)"

text \<open>\<open>d.get(k, None)\<close>.\<close>

definition dict_get_default :: "dict \<Rightarrow> string \<Rightarrow> val" where
  "dict_get_default d k = (case map_of d k of None \<Rightarrow> VNone | Some v \<Rightarrow> v)"

text \<open>
  The loop over the leaf tests: each test's \<open>setup\<close> and \<open>teardown\<close> entries are replaced,
  in the test itself, by their resolved lists.  The lists are stored as the values they
  have when they are resolved; what they become when they hold child mappings of the
  entry point is in the section on the copy of the skeleton.
\<close>

fun fill_tests :: "dict \<Rightarrow> string list \<Rightarrow> (string \<times> dict) list \<Rightarrow> (error + dict list) \<times> dict" where
  "fill_tests parameters path [] = (Inr [], parameters)"
| "fill_tests parameters path ((k, test) # rest) =
     (case fill_template parameters (dict_get_default test ''setup'') of
        (Inl e, ps1) \<Rightarrow> (Inl e, ps1)
      | (Inr s, ps1) \<Rightarrow>
          (let test1 = dict_set ''setup'' (VList s) test;
               ps2 = set_at (path @ [k]) test1 ps1
           in case fill_template ps2 (dict_get_default test1 ''teardown'') of
                (Inl e, ps3) \<Rightarrow> (Inl e, ps3)
              | (Inr t, ps3) \<Rightarrow>
                  (let test2 = dict_set ''teardown'' (VList t) test1;
                       ps4 = set_at (path @ [k]) test2 ps3
                   in case fill_tests ps4 path rest of
                        (Inl e, ps5) \<Rightarrow> (Inl e, ps5)
                      | (Inr ts, ps5) \<Rightarrow> (Inr (test2 # ts), ps5))))"

text \<open>What a level keeps after \<open>setup\<close>, \<open>teardown\<close> and \<open>yield_values\<close> are popped.\<close>

definition popped_level :: "dict \<Rightarrow> dict" where
  "popped_level this_level =
     snd (dict_pop ''yield_values'' VNone
       (snd (dict_pop ''teardown'' VNone (snd (dict_pop ''setup'' VNone this_level)))))"

lemma dict_children_mono:
  "set d \<subseteq> set d' \<Longrightarrow> set (dict_children d) \<subseteq> set (dict_children d')"
  by (auto simp: dict_children_def split: val.splits)

lemma set_delete_subset: "set (AList.delete k d) \<subseteq> set d"
  by (induction d) auto

lemma popped_level_children:
  "set (dict_children (popped_level d)) \<subseteq> set (dict_children d)"
  unfolding popped_level_def dict_pop_def snd_conv
  by (intro dict_children_mono order_trans [OF set_delete_subset] set_delete_subset)

text \<open>
  The \<open>while True\<close> loop of \<open>_extract_skeleton\<close>.  \<open>path\<close> leads to \<open>this_level\<close>; the lists
  grow by one entry per level.
\<close>

function extract_loop ::
  "dict \<Rightarrow> string list \<Rightarrow> dict \<Rightarrow> val list \<Rightarrow> val list \<Rightarrow> val \<Rightarrow> nat \<Rightarrow> dict list list
   \<Rightarrow> (error + loop_skeleton) \<times> dict" where
  "extract_loop parameters path this_level sets tears yield_vals i_level ocs =
     (let sets' = sets @ [fst (dict_pop ''setup'' VNone this_level)];
          tears' = tears @ [fst (dict_pop ''teardown'' VNone (snd (dict_pop ''setup'' VNone this_level)))];
          yield_vals' = fst (dict_pop ''yield_values'' yield_vals
             (snd (dict_pop ''teardown'' VNone (snd (dict_pop ''setup'' VNone this_level)))));
          level = popped_level this_level;
          ps = set_at path level parameters;
          p = filter (\<lambda>(k, v). \<not> is_dict v) level
      in case get_indexed_combinations (ParameterCombination p) i_level None of
           Inl e \<Rightarrow> (Inl e, ps)
         | Inr c \<Rightarrow>
             (let next_level = dict_children level
              in if next_level = [] then (Inl (ValueError No_inner_loops), ps)
                 else if \<not> has_dict_value (snd (hd next_level))
                 then (case fill_tests ps path next_level of
                         (Inl e, ps') \<Rightarrow> (Inl e, ps')
                       | (Inr ts, ps') \<Rightarrow>
                           (Inr \<lparr>setups = sets', teardowns = tears', yield_values = yield_vals',
                                 tests = ts, outer_combinations = ocs @ [c]\<rparr>, ps'))
                 else extract_loop ps (path @ [fst (hd next_level)]) (snd (hd next_level))
                        sets' tears' yield_vals' (Suc i_level) (ocs @ [c])))"
  by pat_completeness auto
termination
proof (relation "measure (\<lambda>(parameters, path, this_level, r). size (VDict this_level))")
  show "wf (measure (\<lambda>(parameters, path, this_level, r). size (VDict this_level)))" by simp
next
  fix parameters :: dict and path :: "string list" and this_level level :: dict
    and next_level :: "(string \<times> dict) list"
    and sets tears :: "val list" and yield_vals :: val and i_level :: nat
    and ocs :: "dict list list" and sets' tears' yield_vals' ps
  assume l: "level = popped_level this_level"
    and n: "next_level = dict_children level" "next_level \<noteq> []"
  from n have "hd next_level \<in> set (dict_children level)" by simp
  with l popped_level_children have "hd next_level \<in> set (dict_children this_level)" by blast
  then have "(fst (hd next_level), snd (hd next_level)) \<in> set (dict_children this_level)" by simp
  then have "size (VDict (snd (hd next_level))) < size (VDict this_level)"
    by (rule dict_children_size)
  then show "((ps, path @ [fst (hd next_level)], snd (hd next_level), sets', tears', yield_vals',
       Suc i_level, ocs @ [c]), parameters, path, this_level, sets, tears, yield_vals, i_level, ocs)
      \<in> measure (\<lambda>(parameters, path, this_level, r). size (VDict this_level))" for c
    by simp
qed

declare extract_loop.simps [simp del]

text \<open>
  \<open>_extract_skeleton\<close>: the loop from the entry point, then the resolution of every level's
  setups and teardowns.  \<open>this_level.pop\<close> needs a mapping under \<open>"main"\<close>.
\<close>

definition extract_skeleton :: "dict \<Rightarrow> (error + loop_skeleton) \<times> dict" where
  "extract_skeleton parameters =
     (case map_of parameters ''main'' of
        None \<Rightarrow> (Inl (KeyError ''main''), parameters)
      | Some (VDict this_level) \<Rightarrow>
          (case extract_loop parameters [''main''] this_level [] [] VNone 0 [] of
             (Inl e, ps) \<Rightarrow> (Inl e, ps)
           | (Inr sk, ps) \<Rightarrow>
               (case fill_template ps (VList (setups sk)) of
                  (Inl e, ps1) \<Rightarrow> (Inl e, ps1)
                | (Inr new_setups, ps1) \<Rightarrow>
                    (case fill_template ps1 (VList (teardowns sk)) of
                       (Inl e, ps2) \<Rightarrow> (Inl e, ps2)
                     | (Inr new_teardowns, ps2) \<Rightarrow>
                         (Inr (sk\<lparr>setups := new_setups, teardowns := new_teardowns\<rparr>), ps2))))
      | Some (VList _) \<Rightarrow> (Inl TypeError, parameters)
      | Some _ \<Rightarrow> (Inl AttributeError, parameters))"

section \<open>The copy of the skeleton\<close>

text \<open>
  The mappings that the extraction treats as levels: the outer levels, from the entry
  point down the chain of first child mappings (taken after \<open>setup\<close>, \<open>teardown\<close> and
  \<open>yield_values\<close> are popped) while that child nests a mapping; and the leaf tests, the
  child mappings of the last outer level.
\<close>

function outer_levels :: "dict \<Rightarrow> dict list" where
  "outer_levels this_level =
     (let next_level = dict_children (popped_level this_level)
      in if next_level \<noteq> [] \<and> has_dict_value (snd (hd next_level))
         then this_level # outer_levels (snd (hd next_level))
         else [this_level])"
  by pat_completeness auto
termination
proof (relation "measure (\<lambda>d. size (VDict d))")
  show "wf (measure (\<lambda>d. size (VDict d)))" by simp
next
  fix this_level :: dict and next_level :: "(string \<times> dict) list"
  assume n: "next_level = dict_children (popped_level this_level)"
    and "next_level \<noteq> [] \<and> has_dict_value (snd (hd next_level))"
  then have "hd next_level \<in> set (dict_children (popped_level this_level))" by simp
  with popped_level_children have "hd next_level \<in> set (dict_children this_level)" by blast
  then have "(fst (hd next_level), snd (hd next_level)) \<in> set (dict_children this_level)" by simp
  then have "size (VDict (snd (hd next_level))) < size (VDict this_level)"
    by (rule dict_children_size)
  then show "(snd (hd next_level), this_level) \<in> measure (\<lambda>d. size (VDict d))" by simp
qed

declare outer_levels.simps [simp del]

definition leaf_tests :: "dict \<Rightarrow> dict list" where
  "leaf_tests this_level = map snd (dict_children (popped_level (last (outer_levels this_level))))"

text \<open>
  Python's mappings are objects, and the combinations that \<open>fill_template\<close> returns hold
  the values of the template themselves, not copies of them.  This matters for one
  template, the entry point: a value of \<open>parameters["main"]\<close> that is a mapping is a level or
  a leaf test, which the extraction changes in place.  So when the setup or the teardown of
  a leaf test names \<open>"main"\<close>, the list stored in that test holds the child mappings of the
  entry point: they are seen there as the loop over the tests leaves them, and one of them
  may be, or may contain, the test itself.

  \<open>dataclasses.astuple\<close> copies the skeleton recursively.  If a leaf test is part of its own
  setup or teardown list the copy never ends, and Python raises \<open>RecursionError\<close>.
  Otherwise the copy holds every mapping as it is at that moment.

  \<open>names_entry_point values\<close>: \<open>fill_template\<close> looks \<open>"main"\<close> up for \<open>values\<close>.
\<close>

definition names_entry_point :: "val \<Rightarrow> bool" where
  "names_entry_point values =
     (values \<noteq> VNone \<and>
      (case py_iter values of
         Inl e \<Rightarrow> False
       | Inr items \<Rightarrow> VStr ''main'' \<in> set (flatten_multidimensional_list items)))"

text \<open>
  \<open>dict(zip(pure_names, combination))\<close> keeps, for each pure name, the value of the last key
  with that pure name: the value under key \<open>k\<close> is in the combinations when \<open>k\<close> is the last
  of the keys with its pure name.
\<close>

definition last_of_name :: "string list \<Rightarrow> string \<Rightarrow> bool" where
  "last_of_name names k =
     (let same = filter (\<lambda>n. pure_name n = pure_name k) names
      in same \<noteq> [] \<and> last same = k)"

text \<open>
  A leaf test becomes part of its own setup or teardown list when that list names the
  entry point and the combinations of the entry point hold the child mapping through which
  the test is reached: the first child mapping of the entry point, or the test itself when
  the entry point is the only outer level.  (The keys of the entry point are those left
  after \<open>setup\<close>, \<open>teardown\<close> and \<open>yield_values\<close> are popped.)
\<close>

definition self_referencing :: "dict \<Rightarrow> bool" where
  "self_referencing parameters =
     (case map_of parameters ''main'' of
        Some (VDict this_level) \<Rightarrow>
          (let levels = outer_levels this_level;
               top = popped_level this_level
           in list_ex
                (\<lambda>(k, test).
                   (names_entry_point (dict_get_default test ''setup'')
                    \<or> names_entry_point (dict_get_default test ''teardown''))
                   \<and> last_of_name (map fst top)
                        (if length levels = 1 then k else fst (hd (dict_children top))))
                (dict_children (popped_level (last levels))))
      | _ \<Rightarrow> False)"

text \<open>
  The list stored in a test, as the copy finds it.  It was resolved from \<open>values\<close>; the
  mappings in it are those of the specification \<open>ps\<close> at the time of the copy, so it is what
  resolving \<open>values\<close> gives then.  (Every name in \<open>values\<close> has been resolved once already.)
\<close>

definition dereferenced :: "dict \<Rightarrow> val \<Rightarrow> val \<Rightarrow> val" where
  "dereferenced ps values stored =
     (case fst (fill_template ps values) of
        Inl e \<Rightarrow> stored
      | Inr xs \<Rightarrow> VList xs)"

text \<open>The copy of a processed leaf test; \<open>test\<close> is the test as the caller passed it.\<close>

definition copied_test :: "dict \<Rightarrow> dict \<times> dict \<Rightarrow> dict" where
  "copied_test ps tt =
     (let test = fst tt; test2 = snd tt;
          setup = dereferenced ps (dict_get_default test ''setup'') (dict_get_default test2 ''setup'');
          teardown = dereferenced ps (dict_get_default test ''teardown'')
                       (dict_get_default test2 ''teardown'')
      in dict_set ''teardown'' teardown (dict_set ''setup'' setup test2))"

text \<open>
  \<open>dataclasses.astuple(_extract_skeleton(parameters))\<close>, for the specification \<open>parameters\<close>
  as passed and \<open>ps\<close> as the extraction left it.
\<close>

definition astuple :: "dict \<Rightarrow> dict \<Rightarrow> loop_skeleton \<Rightarrow> error + loop_skeleton" where
  "astuple parameters ps sk =
     (if self_referencing parameters then Inl RecursionError
      else case map_of parameters ''main'' of
             Some (VDict this_level) \<Rightarrow>
               Inr (sk\<lparr>tests := map (copied_test ps) (zip (leaf_tests this_level) (tests sk))\<rparr>)
           | _ \<Rightarrow> Inr sk)"

section \<open>Sequence generation\<close>

definition setup_event :: "val \<Rightarrow> val" where
  "setup_event x = VDict [(''setup'', x)]"

definition teardown_event :: "val \<Rightarrow> val" where
  "teardown_event x = VDict [(''teardown'', x)]"

text \<open>
  The body of the loop over \<open>enumerate(zip(setups, teardowns))\<close>.  \<open>outer_index(i)\<close> is
  \<open>outer_parameters[f"__index_{i}"]\<close>; the second lookup happens only when the first
  comparison holds.
\<close>

definition rollover_events :: "dict \<Rightarrow> nat \<times> val \<times> val \<Rightarrow> error + val list" where
  "rollover_events outer_parameters ist =
     (let i = fst ist; setup = fst (snd ist); teardown = snd (snd ist)
      in if i = 0 then Inr []
         else case dict_get outer_parameters (index_key i) of
                Inl e \<Rightarrow> Inl e
              | Inr vi \<Rightarrow>
                  if vi = VInt 0
                  then (case dict_get outer_parameters (index_key (i - 1)) of
                          Inl e \<Rightarrow> Inl e
                        | Inr vj \<Rightarrow>
                            if vj \<noteq> VInt 0
                            then Inr [teardown_event teardown, setup_event setup]
                            else Inr [])
                  else Inr [])"

text \<open>The body of the loop over \<open>enumerate(tests)\<close>.\<close>

definition test_events :: "loop_skeleton \<Rightarrow> dict \<Rightarrow> nat \<times> dict \<Rightarrow> error + val list" where
  "test_events sk outer_parameters ip =
     (let i_inner = fst ip;
          setup = fst (dict_pop ''setup'' VNone (snd ip));
          inner1 = snd (dict_pop ''setup'' VNone (snd ip));
          teardown = fst (dict_pop ''teardown'' VNone inner1);
          inner2 = snd (dict_pop ''teardown'' VNone inner1);
          yield_test = fst (dict_pop ''yield'' (yield_values sk) inner2);
          inner_parameters = snd (dict_pop ''yield'' (yield_values sk) inner2);
          all_parameters = dict_merge outer_parameters inner_parameters
      in case get_indexed_combinations (ParameterCombination all_parameters)
                (length (setups sk)) (Some i_inner) of
           Inl e \<Rightarrow> Inl e
         | Inr c \<Rightarrow>
             Inr ([setup_event setup]
                  @ map (\<lambda>c. VDict (dict_set ''yield'' yield_test c)) c
                  @ [teardown_event teardown]))"

text \<open>\<open>reduce(operator.ior, outer_combination, {})\<close>.\<close>

definition merge_all :: "dict list \<Rightarrow> dict" where
  "merge_all outer_combination = foldl dict_merge [] outer_combination"

text \<open>The loop over \<open>enumerate(zip(setups, teardowns))\<close>: what it appends for one tuple.\<close>

definition rollovers :: "loop_skeleton \<Rightarrow> dict \<Rightarrow> error + val list" where
  "rollovers sk outer_parameters =
     (case map_err (rollover_events outer_parameters)
             (enumerate 0 (zip (setups sk) (teardowns sk))) of
        Inl e \<Rightarrow> Inl e
      | Inr rs \<Rightarrow> Inr (concat rs))"

text \<open>The body of the loop over \<open>product(*outer_combinations)\<close>.\<close>

definition outer_events :: "loop_skeleton \<Rightarrow> dict list \<Rightarrow> error + val list" where
  "outer_events sk outer_combination =
     (let outer_parameters = merge_all outer_combination
      in case rollovers sk outer_parameters of
           Inl e \<Rightarrow> Inl e
         | Inr rs \<Rightarrow>
             (case map_err (test_events sk outer_parameters) (enumerate 0 (tests sk)) of
                Inl e \<Rightarrow> Inl e
              | Inr ts \<Rightarrow> Inr (rs @ concat ts)))"

definition generate :: "loop_skeleton \<Rightarrow> error + val list" where
  "generate sk =
     (case map_err (outer_events sk) (product_lists (outer_combinations sk)) of
        Inl e \<Rightarrow> Inl e
      | Inr blocks \<Rightarrow>
          Inr ([setup_event (VList (setups sk))]
               @ concat blocks
               @ [teardown_event (VList (rev (teardowns sk)))]))"

text \<open>
  \<open>get_combinations\<close>: the result, or the exception, and the caller's specification as the
  call leaves it.  In that specification a list resolved from the entry point shows the
  child mappings of the entry point as they were when the name was looked up.
\<close>

definition get_combinations :: "dict \<Rightarrow> (error + val list) \<times> dict" where
  "get_combinations parameters =
     (case check_validity parameters of
        Inl e \<Rightarrow> (Inl e, parameters)
      | Inr _ \<Rightarrow>
          (case extract_skeleton parameters of
             (Inl e, ps) \<Rightarrow> (Inl e, ps)
           | (Inr sk, ps) \<Rightarrow>
               (case astuple parameters ps sk of
                  Inl e \<Rightarrow> (Inl e, ps)
                | Inr sk' \<Rightarrow> (generate sk', ps))))"

section \<open>Reading the output sequence\<close>

text \<open>
  Every element of the output is a mapping.  A setup event is \<open>{"setup": x}\<close>, a teardown
  event is \<open>{"teardown": x}\<close>; a test combination is any other mapping (it always has the
  keys \<open>__index\<close>, \<open>__index_test\<close> and \<open>yield\<close>, so it is never a one-key mapping).
\<close>

definition is_setup_event :: "val \<Rightarrow> bool" where
  "is_setup_event v = (case v of VDict [(k, x)] \<Rightarrow> k = ''setup'' | _ \<Rightarrow> False)"

definition is_teardown_event :: "val \<Rightarrow> bool" where
  "is_teardown_event v = (case v of VDict [(k, x)] \<Rightarrow> k = ''teardown'' | _ \<Rightarrow> False)"

definition is_test_combination :: "val \<Rightarrow> bool" where
  "is_test_combination v = (is_dict v \<and> \<not> is_setup_event v \<and> \<not> is_teardown_event v)"

text \<open>\<open>c.get(k)\<close> on an element of the output.\<close>

definition field :: "string \<Rightarrow> val \<Rightarrow> val option" where
  "field k v = (case v of VDict d \<Rightarrow> map_of d k | _ \<Rightarrow> None)"

section \<open>Notions and examples for the properties\<close>

text \<open>
  The entry point is the one outer level; it sweeps \<open>temperature\<close> over three values and
  holds a single leaf test sweeping \<open>param\<close> over two.
\<close>

definition example_spec :: dict where
  "example_spec =
     [(''main'', VDict [(''temperature'', VList [VInt 25, VInt 26, VInt 27]),
                        (''test'', VDict [(''param'', VList [VInt 1, VInt 2])])])]"

text \<open>
  A specification with a top-level entry that is a string, named as a setup template by
  the entry point.
\<close>

definition scalar_template_spec :: dict where
  "scalar_template_spec =
     [(''ignore_me'', VStr ''for testing purposes''),
      (''main'', VDict [(''setup'', VList [VStr ''ignore_me'']),
                        (''test'', VDict [(''param'', VList [VInt 1, VInt 2])])])]"

text \<open>
  One outer level (the entry point, sweeping \<open>temperature\<close>) whose \<open>setup\<close> is the empty list,
  and one leaf test.
\<close>

definition empty_setup_spec :: dict where
  "empty_setup_spec =
     [(''main'', VDict [(''setup'', VList []),
                        (''temperature'', VList [VInt 25, VInt 26]),
                        (''test'', VDict [(''param'', VList [VInt 1, VInt 2])])])]"

text \<open>
  Three nested outer levels, each sweeping one parameter over two values and each with
  its own setup and teardown, around one leaf test.
\<close>

definition deep_spec :: dict where
  "deep_spec =
     [(''main'', VDict
        [(''setup'', VList [VDict [(''open'', VInt 0)]]),
         (''teardown'', VList [VDict [(''close'', VInt 0)]]),
         (''a'', VList [VInt 1, VInt 2]),
         (''l1'', VDict
            [(''setup'', VList [VDict [(''open'', VInt 1)]]),
             (''teardown'', VList [VDict [(''close'', VInt 1)]]),
             (''b'', VList [VInt 1, VInt 2]),
             (''l2'', VDict
                [(''setup'', VList [VDict [(''open'', VInt 2)]]),
                 (''teardown'', VList [VDict [(''close'', VInt 2)]]),
                 (''c'', VList [VInt 1, VInt 2]),
                 (''t'', VDict [(''p'', VInt 1)])])])])]"

definition pair_for :: "nat \<Rightarrow> val list" where
  "pair_for i =
     [teardown_event (VDict [(''close'', VInt (int i))]), setup_event (VDict [(''open'', VInt (int i))])]"

text \<open>
  \<open>level_at m path\<close> is the mapping reached from \<open>m\<close> by following the keys of \<open>path\<close>
  through nested mappings; a level has parallel loops when it has more than one child
  mapping and one of those children contains a mapping itself.
\<close>

fun level_at :: "dict \<Rightarrow> string list \<Rightarrow> dict option" where
  "level_at d [] = Some d"
| "level_at d (k # ks) = (case map_of d k of Some (VDict c) \<Rightarrow> level_at c ks | _ \<Rightarrow> None)"

definition parallel_loops :: "dict \<Rightarrow> bool" where
  "parallel_loops level =
     (length (dict_children level) > 1 \<and> list_ex has_dict_value (map snd (dict_children level)))"

definition parallel_spec :: dict where
  "parallel_spec =
     [(''main'', VDict
        [(''outer'', VDict
           [(''first'', VDict [(''inner'', VDict [(''param_1'', VList [VInt 1, VInt 2])])]),
            (''second'', VDict [(''param_2'', VList [VInt 4, VInt 5])])])])]"

definition parallel_level :: dict where
  "parallel_level =
     [(''first'', VDict [(''inner'', VDict [(''param_1'', VList [VInt 1, VInt 2])])]),
      (''second'', VDict [(''param_2'', VList [VInt 4, VInt 5])])]"

text \<open>The parameters with more than one value, in declaration order.\<close>

definition swept :: "parameter_combination \<Rightarrow> parameter_combination" where
  "swept pc = filter (\<lambda>(name, vs). length vs > 1) pc"


text \<open>
  No group tag is carried by swept parameters of different lengths: every call of
  \<open>get_zip_index\<close> succeeds.
\<close>

definition lengths_agree :: "parameter_combination \<Rightarrow> bool" where
  "lengths_agree pc =
     list_all (\<lambda>g. all_equal (map snd (filter fst (zip (map (selects g) (zip_groups pc)) (shape pc)))))
       (zip_groups pc)"

text \<open>The entry of the reduced mask at one multi-index.\<close>

definition valid_index :: "parameter_combination \<Rightarrow> nat list \<Rightarrow> bool" where
  "valid_index pc idx =
     list_all (\<lambda>g. on_diagonal (map (selects g) (zip_groups pc)) idx) (zip_groups pc)"

text \<open>No parameter has an empty value list.\<close>

definition no_empty_list :: "parameter_combination \<Rightarrow> bool" where
  "no_empty_list pc = list_all (\<lambda>(name, vs). vs \<noteq> []) pc"

text \<open>
  No group tag selects more than one swept parameter: each swept parameter is untagged,
  carries the empty tag, or is the only swept member of its group.
\<close>

definition sole_members :: "parameter_combination \<Rightarrow> bool" where
  "sole_members pc =
     list_all (\<lambda>g. length (filter (selects g) (zip_groups pc)) \<le> 1) (zip_groups pc)"

text \<open>Every swept parameter is untagged.\<close>

definition all_ungrouped :: "parameter_combination \<Rightarrow> bool" where
  "all_ungrouped pc = list_all (\<lambda>g. g = None) (zip_groups pc)"

text \<open>Two swept parameters and a fixed one; and a mapping of fixed values only.\<close>

definition two_sweeps :: dict where
  "two_sweeps =
     [(''temperature'', VList [VInt 25, VInt 26, VInt 27]), (''mode'', VStr ''fast''),
      (''param'', VList [VInt 1, VInt 2])]"

definition fixed_values :: dict where
  "fixed_values = [(''temperature'', VInt 20), (''param_1'', VList [VInt 7])]"

text \<open>
  A swept parameter beside a parameter whose value list is empty.
\<close>

definition empty_list_parameters :: dict where
  "empty_list_parameters = [(''param'', VList [VInt 1, VInt 2]), (''extra'', VList [])]"

text \<open>
  The cartesian product of the value lists with every value paired with its position in
  its list.
\<close>

definition indexed_product :: "parameter_combination \<Rightarrow> (nat \<times> val) list list" where
  "indexed_product pc = product_lists (map (\<lambda>(name, vs). enumerate 0 vs) pc)"

text \<open>The positions, in a tuple of positions, of the swept parameters.\<close>

definition swept_positions :: "parameter_combination \<Rightarrow> nat list \<Rightarrow> nat list" where
  "swept_positions pc pos = map snd (filter (\<lambda>((name, vs), i). length vs > 1) (zip pc pos))"

text \<open>The positions of the swept parameters that the tag \<open>g\<close> selects.\<close>

definition group_positions :: "parameter_combination \<Rightarrow> string option \<Rightarrow> nat list \<Rightarrow> nat list" where
  "group_positions pc g pos =
     map snd (filter (\<lambda>((name, vs), i). length vs > 1 \<and> selects g (get_zip_group name)) (zip pc pos))"

text \<open>Every group's members sit at the same position.\<close>

definition zipped :: "parameter_combination \<Rightarrow> nat list \<Rightarrow> bool" where
  "zipped pc pos = list_all (\<lambda>g. all_equal (group_positions pc g pos)) (zip_groups pc)"

text \<open>
  The tuple in which every swept parameter is at position \<open>j\<close> and every other parameter at
  its only value.
\<close>

definition at_position :: "nat \<Rightarrow> parameter_combination \<Rightarrow> (nat \<times> val) list" where
  "at_position j pc = map (\<lambda>(name, vs). if length vs > 1 then (j, vs ! j) else (0, hd vs)) pc"

text \<open>Every swept parameter has \<open>L\<close> values.\<close>

definition swept_length :: "nat \<Rightarrow> parameter_combination \<Rightarrow> bool" where
  "swept_length L pc = list_all (\<lambda>(name, vs). length vs > 1 \<longrightarrow> length vs = L) pc"

text \<open>
  Every swept parameter carries the non-empty tag \<open>g\<close> and has \<open>L\<close> values: the swept
  parameters are the members of one zip group, and there is no other swept dimension.
\<close>

definition single_group :: "string \<Rightarrow> nat \<Rightarrow> parameter_combination \<Rightarrow> bool" where
  "single_group g L pc =
     (g \<noteq> [] \<and> list_all (\<lambda>(name, vs). length vs > 1 \<longrightarrow> get_zip_group name = Some g \<and> length vs = L) pc)"

text \<open>\<open>values[j]\<close> for a swept parameter, the only value otherwise.\<close>

definition pick :: "nat \<Rightarrow> val list \<Rightarrow> val" where
  "pick j vs = (if length vs > 1 then vs ! j else hd vs)"

text \<open>
  The corner parameters of the repository's test fixture, as one zip group of two members
  with three values each; and a mapping with a zipped pair, an untagged swept parameter
  and the only member of a second group.
\<close>

definition corner_parameters :: dict where
  "corner_parameters =
     [(''param_1#zip_corner'', VList [VInt 1, VInt 2, VInt 3]),
      (''param_2#zip_corner'', VList [VStr ''a'', VStr ''b'', VStr ''c'']),
      (''mode'', VStr ''x'')]"

definition mixed_parameters :: dict where
  "mixed_parameters =
     [(''a#zip_g'', VList [VInt 1, VInt 2]),
      (''t'', VList [VInt 10, VInt 20]),
      (''b#zip_g'', VList [VInt 3, VInt 4]),
      (''c#zip_h'', VList [VInt 5, VInt 6])]"

text \<open>
  Two swept parameters whose names end in the zip marker with an empty group name.
\<close>

definition empty_tag_parameters :: dict where
  "empty_tag_parameters =
     [(''a#zip_'', VList [VInt 1, VInt 2]), (''b#zip_'', VList [VInt 3, VInt 4])]"









text \<open>
  A leaf test whose setup names the entry point; and one whose place among the values of
  the entry point is taken by the later key with the same pure name.
\<close>

definition self_reference_spec :: dict where
  "self_reference_spec =
     [(''main'', VDict [(''x'', VList [VInt 1, VInt 2]),
                        (''t'', VDict [(''setup'', VList [VStr ''main'']), (''p'', VInt 1)])])]"

definition sibling_reference_spec :: dict where
  "sibling_reference_spec =
     [(''main'', VDict [(''t#a'', VDict [(''setup'', VList [VStr ''main'']), (''x'', VInt 1)]),
                        (''t#b'', VDict [(''y'', VInt 2)])])]"

text \<open>
  \<open>guarded opens closes st xs\<close> reads \<open>xs\<close> from the left with one bit of state, set by an
  element that \<open>opens\<close> and cleared by one that \<open>closes\<close>; every other element must be read
  with the bit set.  With setup events opening and teardown events closing it says that
  the event nearest before any test combination is a setup event; on the reversed list,
  with the roles exchanged, that the event nearest after it is a teardown event.
\<close>

fun guarded :: "(val \<Rightarrow> bool) \<Rightarrow> (val \<Rightarrow> bool) \<Rightarrow> bool \<Rightarrow> val list \<Rightarrow> bool" where
  "guarded opens closes st [] = True"
| "guarded opens closes st (x # xs) =
     (if opens x then guarded opens closes True xs
      else if closes x then guarded opens closes False xs
      else st \<and> guarded opens closes st xs)"

text \<open>
  What the loop over the outer tuples appends: rollover pairs (a teardown event, then a
  setup event) and test runs (a setup event, the test's combinations, a teardown event).
\<close>

inductive paired :: "val list \<Rightarrow> bool" where
  nil: "paired []"
| pair: "is_teardown_event t \<Longrightarrow> is_setup_event s \<Longrightarrow> paired xs \<Longrightarrow> paired (t # s # xs)"
| run: "is_setup_event s \<Longrightarrow> is_teardown_event t \<Longrightarrow> list_all is_test_combination cs \<Longrightarrow>
        paired xs \<Longrightarrow> paired (s # cs @ t # xs)"






section \<open>The worked example of the specification\<close>

text \<open>
  Claim C6.  On the example, \<open>get_combinations\<close> returns six test combinations, whose
  composite indices are \<open>[t, p]\<close> for \<open>t\<close> in 0..2 and \<open>p\<close> in 0..1 in nested order, four setup
  events and four teardown events.
\<close>

theorem example_six_combinations:
  "case fst (get_combinations example_spec) of
     Inl e \<Rightarrow> False
   | Inr out \<Rightarrow>
       map (field ''__index'') (filter is_test_combination out) =
         [Some (VList [VInt 0, VInt 0]), Some (VList [VInt 0, VInt 1]),
          Some (VList [VInt 1, VInt 0]), Some (VList [VInt 1, VInt 1]),
          Some (VList [VInt 2, VInt 0]), Some (VList [VInt 2, VInt 1])]
       \<and> length (filter is_test_combination out) = 6
       \<and> length (filter is_setup_event out) = 4
       \<and> length (filter is_teardown_event out) = 4"
  by code_simp

section \<open>Template names that do not resolve\<close>

text \<open>
  What \<open>fill_template\<close> does with one entry, case by case: \<open>None\<close> and literal mappings pass
  through, an unknown name and a name bound to a list are reported as a template that was
  not found.
\<close>

lemma fill_value_passes_none: "fill_value parameters VNone = (Inr VNone, parameters)"
  by (simp add: fill_value_def)

lemma fill_value_passes_mapping: "fill_value parameters (VDict d) = (Inr (VDict d), parameters)"
  by (simp add: fill_value_def is_dict_def)

lemma fill_value_unknown_name:
  "map_of parameters name = None \<Longrightarrow>
   fill_value parameters (VStr name) = (Inl (ValueError (Template_not_found (VStr name))), parameters)"
  by (simp add: fill_value_def is_dict_def)

lemma fill_value_list_template:
  "map_of parameters name = Some (VList xs) \<Longrightarrow>
   fill_value parameters (VStr name) = (Inl (ValueError (Template_not_found (VStr name))), parameters)"
  by (simp add: fill_value_def is_dict_def)

text \<open>
  Claim C7, at an input where the code does not do what the claim says.  A setup entry
  naming a top-level value that is a string (likewise an integer or \<open>None\<close>) does not end in
  the "Template not found" \<open>ValueError\<close>: \<open>p.pop\<close> raises \<open>AttributeError\<close>, which the handler
  of \<open>fill_template\<close> does not catch, and \<open>get_combinations\<close> fails with it.
\<close>

theorem scalar_template_attribute_error:
  "fst (fill_template scalar_template_spec (VList [VStr ''ignore_me''])) = Inl AttributeError
   \<and> fst (fill_template [(''n'', VInt 5)] (VList [VStr ''n''])) = Inl AttributeError
   \<and> fst (get_combinations scalar_template_spec) = Inl AttributeError"
  by code_simp

section \<open>A leaf test that names the entry point\<close>

text \<open>
  The setup of the leaf test names \<open>"main"\<close>: the list stored in the test holds the test
  itself, and the copy of the skeleton raises \<open>RecursionError\<close>.
\<close>

lemma self_reference_recursion_error:
  "fst (get_combinations self_reference_spec) = Inl RecursionError"
  by code_simp

text \<open>
  Here the combinations of the entry point hold, under the pure name \<open>t\<close>, the second leaf
  test only.  The call returns; the setup event of the first test shows the second test
  as it is at the end, with its \<open>setup\<close> and \<open>teardown\<close> keys.
\<close>

lemma sibling_reference_output:
  "case fst (get_combinations sibling_reference_spec) of
     Inl e \<Rightarrow> False
   | Inr out \<Rightarrow>
       length out = 8
       \<and> out ! 1 = setup_event (VList [VList [VDict [(''t'',
            VDict [(''y'', VInt 2), (''setup'', VList []), (''teardown'', VList [])])]]])"
  by code_simp

section \<open>Index bookkeeping when a setup list is empty\<close>

text \<open>
  Claim C10, at an input where the code does not do what the claim says.  The level passed
  to \<open>_get_indexed_combinations\<close> for a test is \<open>len(setups)\<close>, the number of resolved setup
  entries, which flattening has brought down to 0 here although there is one outer level.
  Each composite index has one entry instead of two, and the test's own position
  overwrites \<open>__index_0\<close>, the index of the temperature: the four combinations carry the
  composite indices \<open>[0], [1], [0], [1]\<close>.
\<close>

theorem empty_setup_composite_index:
  "case fst (get_combinations empty_setup_spec) of
     Inl e \<Rightarrow> False
   | Inr out \<Rightarrow>
       map (field ''__index'') (filter is_test_combination out) =
         [Some (VList [VInt 0]), Some (VList [VInt 1]), Some (VList [VInt 0]), Some (VList [VInt 1])]
       \<and> map (field ''temperature'') (filter is_test_combination out) =
            [Some (VInt 25), Some (VInt 25), Some (VInt 26), Some (VInt 26)]
       \<and> map (field ''__index_0'') (filter is_test_combination out) =
            [Some (VInt 0), Some (VInt 1), Some (VInt 0), Some (VInt 1)]
       \<and> map (field ''__index_1'') (filter is_test_combination out) = [None, None, None, None]"
  by code_simp

section \<open>Three outer levels\<close>

text \<open>
  Claim C5, at an input where the code does not do what the claim says.  The eight outer
  tuples are \<open>(0,0,0)\<close> to \<open>(1,1,1)\<close> in nested order; the list gives what the rollover loop
  emits before the tests of each.  The pair of level 1 is emitted at \<open>(1,0,0)\<close> and again at
  \<open>(1,0,1)\<close>, twice within the one new iteration of level 0; and at \<open>(1,0,0)\<close>, where level 1
  starts a new iteration, no pair of level 2 is emitted.
\<close>

theorem deep_rollovers:
  "case fst (extract_skeleton deep_spec) of
     Inl e \<Rightarrow> False
   | Inr sk \<Rightarrow>
       map (\<lambda>oc. (map (map_of (merge_all oc) \<circ> index_key) [0, 1, 2], rollovers sk (merge_all oc)))
           (product_lists (outer_combinations sk)) =
         [([Some (VInt 0), Some (VInt 0), Some (VInt 0)], Inr []),
          ([Some (VInt 0), Some (VInt 0), Some (VInt 1)], Inr []),
          ([Some (VInt 0), Some (VInt 1), Some (VInt 0)], Inr (pair_for 2)),
          ([Some (VInt 0), Some (VInt 1), Some (VInt 1)], Inr []),
          ([Some (VInt 1), Some (VInt 0), Some (VInt 0)], Inr (pair_for 1)),
          ([Some (VInt 1), Some (VInt 0), Some (VInt 1)], Inr (pair_for 1)),
          ([Some (VInt 1), Some (VInt 1), Some (VInt 0)], Inr (pair_for 2)),
          ([Some (VInt 1), Some (VInt 1), Some (VInt 1)], Inr [])]"
  by code_simp

section \<open>Parallel outer loops\<close>

lemma dict_children_iff: "(k, c) \<in> set (dict_children d) \<longleftrightarrow> (k, VDict c) \<in> set d"
  by (auto simp: dict_children_def split: val.splits)

lemma map_of_dict_child: "map_of d k = Some (VDict c) \<Longrightarrow> (k, c) \<in> set (dict_children d)"
  by (simp add: dict_children_iff map_of_SomeD)

lemma has_dict_value_iff: "has_dict_value d \<longleftrightarrow> dict_children d \<noteq> []"
proof -
  have "has_dict_value d \<longleftrightarrow> (\<exists>k c. (k, VDict c) \<in> set d)"
    by (fastforce simp: has_dict_value_def list_ex_iff is_dict_def split: val.splits)
  also have "\<dots> \<longleftrightarrow> (\<exists>k c. (k, c) \<in> set (dict_children d))"
    by (simp add: dict_children_iff)
  also have "\<dots> \<longleftrightarrow> dict_children d \<noteq> []"
    by (metis list.set_intros(1) neq_Nil_conv set_empty surj_pair empty_iff)
  finally show ?thesis .
qed

lemma has_dict_value_nonempty: "has_dict_value d \<Longrightarrow> d \<noteq> []"
  by (auto simp: has_dict_value_def)

lemma level_at_has_dict_value:
  assumes "level_at c ks = Some level" and "parallel_loops level"
  shows "has_dict_value c"
proof (cases ks)
  case Nil
  with assms have "c = level" by simp
  with assms(2) show ?thesis
    by (auto simp: parallel_loops_def has_dict_value_iff)
next
  case (Cons k ks')
  with assms(1) obtain c' where "map_of c k = Some (VDict c')"
    by (auto split: option.splits val.splits)
  then show ?thesis
    using map_of_dict_child has_dict_value_iff by fastforce
qed

lemma validity_loop_parallel:
  "level_at m path = Some level \<Longrightarrow> parallel_loops level \<Longrightarrow>
   validity_loop m = Inl (ValueError Parallel_outer_loops)"
proof (induction path arbitrary: m)
  case Nil
  then have m: "m = level" by simp
  from Nil.prems(2) obtain c where c: "c \<in> set (map snd (dict_children level))" "has_dict_value c"
    by (auto simp: parallel_loops_def list_ex_iff)
  then have "list_ex (\<lambda>c. c \<noteq> []) (map snd (dict_children level))"
    using has_dict_value_nonempty by (auto simp: list_ex_iff)
  with Nil.prems(2) m show ?case
    by (subst validity_loop.simps) (simp add: parallel_loops_def Let_def)
next
  case (Cons k ks)
  from Cons.prems(1) obtain c where c: "map_of m k = Some (VDict c)" "level_at c ks = Some level"
    by (auto split: option.splits val.splits)
  have hc: "has_dict_value c"
    using c(2) Cons.prems(2) by (rule level_at_has_dict_value)
  have mem: "c \<in> set (map snd (dict_children m))"
    using map_of_dict_child [OF c(1)] by force
  have ex1: "list_ex (\<lambda>c. c \<noteq> []) (map snd (dict_children m))"
    using mem hc has_dict_value_nonempty by (auto simp: list_ex_iff)
  have ex2: "list_ex has_dict_value (map snd (dict_children m))"
    using mem hc by (auto simp: list_ex_iff)
  show ?case
  proof (cases "length (map snd (dict_children m)) > 1")
    case True
    with ex1 ex2 show ?thesis
      by (subst validity_loop.simps) (simp add: Let_def)
  next
    case False
    with mem have "map snd (dict_children m) = [c]"
      by (cases "map snd (dict_children m)") auto
    then have "validity_loop m = validity_loop c"
      using hc has_dict_value_nonempty
      by (subst validity_loop.simps) (simp add: Let_def)
    with Cons.IH [OF c(2) Cons.prems(2)] show ?thesis by simp
  qed
qed

text \<open>
  Claim C9.  If any level at or below the entry point has more than one child mapping, one
  of which contains a nested mapping, \<open>get_combinations\<close> fails with the parallel-outer-loops
  error; it does so in the validity check, before anything is extracted or emitted, and the
  specification is untouched.  The level need not lie on the chain of first children: the
  walk then meets the error where the path to the level leaves that chain.
\<close>

theorem parallel_loops_rejected:
  assumes "map_of parameters ''main'' = Some (VDict m)"
    and "level_at m path = Some level"
    and "parallel_loops level"
  shows "get_combinations parameters = (Inl (ValueError Parallel_outer_loops), parameters)"
proof -
  have "check_validity parameters = Inl (ValueError Parallel_outer_loops)"
    using assms by (simp add: check_validity_def validity_loop_parallel)
  then show ?thesis by (simp add: get_combinations_def)
qed

theorem parallel_loops_rejected_witness:
  "map_of parallel_spec ''main'' = Some (VDict [(''outer'', VDict parallel_level)])
   \<and> level_at [(''outer'', VDict parallel_level)] [''outer''] = Some parallel_level
   \<and> parallel_loops parallel_level
   \<and> get_combinations parallel_spec = (Inl (ValueError Parallel_outer_loops), parallel_spec)"
proof -
  have a: "map_of parallel_spec ''main'' = Some (VDict [(''outer'', VDict parallel_level)])"
    by (simp add: parallel_spec_def parallel_level_def)
  have b: "level_at [(''outer'', VDict parallel_level)] [''outer''] = Some parallel_level"
    by simp
  have c: "parallel_loops parallel_level"
    by code_simp
  from a b c parallel_loops_rejected [OF a b c] show ?thesis by simp
qed

section \<open>Zip groups of unequal length\<close>

lemma zip_groups_swept: "zip_groups pc = map (\<lambda>(name, vs). get_zip_group name) (swept pc)"
  by (simp add: zip_groups_def swept_def)

lemma shape_swept: "shape pc = map (\<lambda>(name, vs). length vs) (swept pc)"
  by (induction pc) (auto simp: shape_def swept_def)

lemma filter_zip_maps:
  "map snd (filter fst (zip (map f xs) (map h xs))) = map h (filter f xs)"
  by (induction xs) auto

lemma selected_lengths:
  "map snd (filter fst (zip (map (selects g) (zip_groups pc)) (shape pc))) =
   map (\<lambda>(name, vs). length vs) (filter (\<lambda>(name, vs). selects g (get_zip_group name)) (swept pc))"
proof -
  have "map (selects g) (zip_groups pc) = map (\<lambda>(name, vs). selects g (get_zip_group name)) (swept pc)"
    by (simp add: zip_groups_swept case_prod_unfold)
  then show ?thesis
    by (simp add: shape_swept filter_zip_maps)
qed

lemma all_equal_iff: "all_equal ns \<longleftrightarrow> (\<forall>a\<in>set ns. \<forall>b\<in>set ns. a = b)"
proof (cases ns)
  case Nil
  then show ?thesis by (simp add: all_equal_def)
next
  case (Cons n ns')
  then have "all_equal ns \<longleftrightarrow> (\<forall>a\<in>set ns. a = n)"
    by (simp add: all_equal_def list_all_iff)
  also have "\<dots> \<longleftrightarrow> (\<forall>a\<in>set ns. \<forall>b\<in>set ns. a = b)"
  proof
    assume "\<forall>a\<in>set ns. a = n"
    then show "\<forall>a\<in>set ns. \<forall>b\<in>set ns. a = b" by metis
  next
    assume h: "\<forall>a\<in>set ns. \<forall>b\<in>set ns. a = b"
    have "n \<in> set ns" using Cons by simp
    with h show "\<forall>a\<in>set ns. a = n" by blast
  qed
  finally show ?thesis .
qed

lemma get_zip_index_error:
  "get_zip_index pc g = Inl e \<Longrightarrow> e = ValueError Zip_mismatch"
  by (auto simp: get_zip_index_def Let_def split: if_splits)

lemma collect_indices_error:
  "collect_indices pc gs = Inl e \<Longrightarrow> e = ValueError Zip_mismatch"
  by (induction gs arbitrary: e) (auto split: sum.splits dest: get_zip_index_error)



section \<open>The index mask in general\<close>

lemma collect_indices_ok:
  "list_all (\<lambda>g. all_equal (map snd (filter fst (zip (map (selects g) (zip_groups pc)) (shape pc))))) gs \<Longrightarrow>
   collect_indices pc gs =
     Inr (map (\<lambda>g. map (on_diagonal (map (selects g) (zip_groups pc))) (multi_indices (shape pc))) gs)"
  by (induction gs) (auto simp: get_zip_index_def Let_def)

lemma foldl_and_masks:
  "foldl (\<lambda>a b. map (\<lambda>(x, y). x \<and> y) (zip a b)) (map q M) (map (\<lambda>g. map (p g) M) gs) =
   map (\<lambda>idx. q idx \<and> list_all (\<lambda>g. p g idx) gs) M"
proof (induction gs arbitrary: q)
  case Nil
  then show ?case by simp
next
  case (Cons g gs)
  have "map (\<lambda>(x, y). x \<and> y) (zip (map q M) (map (p g) M)) = map (\<lambda>idx. q idx \<and> p g idx) M"
    by (induction M) auto
  then show ?case
    using Cons.IH [of "\<lambda>idx. q idx \<and> p g idx"] by (simp add: conj_assoc)
qed

lemma multi_indices_Nil: "multi_indices [] = [[]]"
  by (simp add: multi_indices_def)

lemma zip_groups_Nil_shape: "zip_groups pc = [] \<longleftrightarrow> shape pc = []"
  by (simp add: zip_groups_swept shape_swept)

lemma combination_index_ok:
  assumes "lengths_agree pc"
  shows "combination_index pc = Inr (map (valid_index pc) (multi_indices (shape pc)))"
proof (cases "zip_groups pc")
  case Nil
  then have "shape pc = []" by (simp add: zip_groups_Nil_shape)
  with Nil show ?thesis
    by (simp add: combination_index_def logical_and_reduce_def valid_index_def multi_indices_Nil)
next
  case (Cons g gs)
  let ?M = "multi_indices (shape pc)"
  let ?p = "\<lambda>g. on_diagonal (map (selects g) (zip_groups pc))"
  have "collect_indices pc (zip_groups pc) = Inr (map (\<lambda>g. map (?p g) ?M) (zip_groups pc))"
    using assms unfolding lengths_agree_def by (rule collect_indices_ok)
  moreover have "logical_and_reduce (map (\<lambda>g. map (?p g) ?M) (g # gs)) =
      map (\<lambda>idx. ?p g idx \<and> list_all (\<lambda>g. ?p g idx) gs) ?M"
    by (simp add: logical_and_reduce_def foldl_and_masks)
  ultimately show ?thesis
    using Cons by (simp add: combination_index_def valid_index_def)
qed

lemma length_product_lists: "length (product_lists xss) = prod_list (map length xss)"
  by (induction xss) (auto simp: length_concat o_def sum_list_triv)

lemma length_multi_indices: "length (multi_indices shp) = prod_list shp"
  by (simp add: multi_indices_def length_product_lists o_def)

lemma length_all_combinations:
  "length (all_combinations pc) = prod_list (map (\<lambda>(name, vs). length vs) pc)"
  by (simp add: all_combinations_def length_product_lists o_def case_prod_unfold)

lemma prod_shape:
  "no_empty_list pc \<Longrightarrow> prod_list (map (\<lambda>(name, vs). length vs) pc) = prod_list (shape pc)"
proof (induction pc)
  case Nil
  then show ?case by (simp add: shape_def)
next
  case (Cons a pc)
  obtain name vs where a: "a = (name, vs)" by (cases a)
  with Cons.prems have "vs \<noteq> []" "no_empty_list pc" by (simp_all add: no_empty_list_def)
  then have "length vs = 1 \<or> length vs > 1"
    by (cases vs) auto
  with Cons.IH \<open>no_empty_list pc\<close> a show ?case
    by (auto simp: shape_def)
qed

lemma prod_shape_pos: "0 < prod_list (shape pc)"
  by (induction pc) (auto simp: shape_def)

lemma prod_empty:
  "\<not> no_empty_list pc \<Longrightarrow> prod_list (map (\<lambda>(name, vs). length vs) pc) = 0"
  by (induction pc) (auto simp: no_empty_list_def)

lemma combinations_general:
  assumes "lengths_agree pc"
  shows "combinations pc =
     (if no_empty_list pc
      then Inr (map fst (filter snd (zip (all_combinations pc)
                  (map (valid_index pc) (multi_indices (shape pc))))))
      else Inl IndexError)"
proof -
  have "length (map (valid_index pc) (multi_indices (shape pc))) = length (all_combinations pc)
        \<longleftrightarrow> no_empty_list pc"
  proof (cases "no_empty_list pc")
    case True
    then show ?thesis
      by (simp add: length_multi_indices length_all_combinations prod_shape)
  next
    case False
    then show ?thesis
      using prod_shape_pos [of pc]
      by (simp add: length_multi_indices length_all_combinations prod_empty)
  qed
  then show ?thesis
    using assms by (simp add: combinations_def combination_index_ok Let_def)
qed

section \<open>Independent parameters\<close>

lemma length_filter_fst_zip:
  "length (filter fst (zip sel xs)) \<le> length (filter id sel)"
proof (induction sel arbitrary: xs)
  case Nil
  then show ?case by simp
next
  case (Cons s sel)
  then show ?case
    by (cases xs) (auto intro: le_SucI)
qed

lemma all_equal_short: "length ns \<le> 1 \<Longrightarrow> all_equal ns"
  by (cases ns) (auto simp: all_equal_def)

lemma sole_members_selected:
  assumes "sole_members pc" and "g \<in> set (zip_groups pc)"
  shows "length (filter fst (zip (map (selects g) (zip_groups pc)) xs)) \<le> 1"
proof -
  have "length (filter fst (zip (map (selects g) (zip_groups pc)) xs))
        \<le> length (filter id (map (selects g) (zip_groups pc)))"
    by (rule length_filter_fst_zip)
  also have "\<dots> = length (filter (selects g) (zip_groups pc))"
    by (simp add: filter_map o_def)
  also have "\<dots> \<le> 1"
    using assms by (simp add: sole_members_def list_all_iff)
  finally show ?thesis .
qed

lemma sole_members_all_equal:
  assumes "sole_members pc" and "g \<in> set (zip_groups pc)"
  shows "all_equal (map snd (filter fst (zip (map (selects g) (zip_groups pc)) xs)))"
proof (rule all_equal_short)
  show "length (map snd (filter fst (zip (map (selects g) (zip_groups pc)) xs))) \<le> 1"
    using sole_members_selected [OF assms] by simp
qed

lemma sole_members_agree: "sole_members pc \<Longrightarrow> lengths_agree pc"
  unfolding lengths_agree_def list_all_iff by (blast intro: sole_members_all_equal)

lemma sole_members_valid: "sole_members pc \<Longrightarrow> valid_index pc idx"
  unfolding valid_index_def on_diagonal_def list_all_iff by (blast intro: sole_members_all_equal)

lemma filter_all_true:
  "length xs = length ys \<Longrightarrow> map fst (filter snd (zip xs (map (\<lambda>y. True) ys))) = xs"
  by (induction xs ys rule: list_induct2) auto

lemma free_product:
  assumes "sole_members pc" and "no_empty_list pc"
  shows "combinations pc = Inr (all_combinations pc)"
proof -
  have len: "length (all_combinations pc) = length (multi_indices (shape pc))"
    using assms(2) by (simp add: length_all_combinations length_multi_indices prod_shape)
  have "map (valid_index pc) (multi_indices (shape pc)) = map (\<lambda>y. True) (multi_indices (shape pc))"
    using assms(1) by (simp add: sole_members_valid)
  then have "map fst (filter snd (zip (all_combinations pc)
      (map (valid_index pc) (multi_indices (shape pc))))) = all_combinations pc"
    using len by (simp only: filter_all_true)
  then show ?thesis
    using assms by (simp add: combinations_general sole_members_agree)
qed

lemma all_ungrouped_sole: "all_ungrouped pc \<Longrightarrow> sole_members pc"
proof -
  assume "all_ungrouped pc"
  then have "filter (selects g) (zip_groups pc) = []" for g
    by (auto simp: all_ungrouped_def list_all_iff filter_empty_conv selects_def)
  then show ?thesis by (simp add: sole_members_def list_all_iff)
qed

lemma all_singleton_shape:
  "list_all (\<lambda>(name, vs). length vs = 1) pc \<Longrightarrow> swept pc = []"
  by (auto simp: swept_def list_all_iff filter_empty_conv)

lemma product_lists_singletons:
  "list_all (\<lambda>vs. length vs = 1) vss \<Longrightarrow> product_lists vss = [map hd vss]"
proof (induction vss)
  case Nil
  then show ?case by simp
next
  case (Cons vs vss)
  then obtain x where "vs = [x]"
    by (cases vs) auto
  with Cons show ?case by simp
qed

text \<open>
  Claim C2, amended by the condition that no value list is empty.  With every swept
  parameter untagged, \<open>combinations\<close> returns the whole cartesian product: one mapping per
  tuple of \<open>product_lists\<close>, which enumerates with the first list slowest, so their number
  is the product of the swept lengths.  When every list has one element there is one
  combination, \<open>dict(zip(names, values))\<close> of the fixed values.
\<close>

theorem independent_product:
  assumes "all_ungrouped (ParameterCombination parameters)"
    and "no_empty_list (ParameterCombination parameters)"
  shows "combinations (ParameterCombination parameters) =
           Inr (map (dict_of_zip (map (pure_name \<circ> fst) (ParameterCombination parameters)))
                  (product_lists (map snd (ParameterCombination parameters))))
         \<and> length (all_combinations (ParameterCombination parameters)) =
             prod_list (shape (ParameterCombination parameters))
         \<and> (list_all (\<lambda>(name, vs). length vs = 1) (ParameterCombination parameters) \<longrightarrow>
              combinations (ParameterCombination parameters) =
                Inr [dict_of_zip (map (pure_name \<circ> fst) (ParameterCombination parameters))
                       (map (hd \<circ> snd) (ParameterCombination parameters))])"
proof -
  let ?pc = "ParameterCombination parameters"
  have c: "combinations ?pc = Inr (all_combinations ?pc)"
    using assms by (simp add: free_product all_ungrouped_sole)
  have l: "length (all_combinations ?pc) = prod_list (shape ?pc)"
    using assms(2) by (simp add: length_all_combinations prod_shape)
  have s: "all_combinations ?pc = [dict_of_zip (map (pure_name \<circ> fst) ?pc) (map (hd \<circ> snd) ?pc)]"
    if "list_all (\<lambda>(name, vs). length vs = 1) ?pc"
  proof -
    from that have "list_all (\<lambda>vs. length vs = 1) (map snd ?pc)"
      by (auto simp: list_all_iff)
    then show ?thesis
      by (simp add: all_combinations_def product_lists_singletons)
  qed
  from c l s show ?thesis
    by (simp add: all_combinations_def)
qed

theorem independent_product_witness:
  "all_ungrouped (ParameterCombination two_sweeps)
   \<and> no_empty_list (ParameterCombination two_sweeps)
   \<and> shape (ParameterCombination two_sweeps) = [3, 2]
   \<and> map_sum id length (combinations (ParameterCombination two_sweeps)) = Inr 6
   \<and> map_sum id (map (\<lambda>c. (map_of c ''temperature'', map_of c ''param'')))
        (combinations (ParameterCombination two_sweeps)) =
       Inr [(Some (VInt 25), Some (VInt 1)), (Some (VInt 25), Some (VInt 2)),
            (Some (VInt 26), Some (VInt 1)), (Some (VInt 26), Some (VInt 2)),
            (Some (VInt 27), Some (VInt 1)), (Some (VInt 27), Some (VInt 2))]
   \<and> all_ungrouped (ParameterCombination fixed_values)
   \<and> no_empty_list (ParameterCombination fixed_values)
   \<and> list_all (\<lambda>(name, vs). length vs = 1) (ParameterCombination fixed_values)
   \<and> combinations (ParameterCombination fixed_values) =
       Inr [[(''temperature'', VInt 20), (''param_1'', VInt 7)]]"
proof -
  have a: "all_ungrouped (ParameterCombination two_sweeps)" by code_simp
  have b: "no_empty_list (ParameterCombination two_sweeps)" by code_simp
  have s: "shape (ParameterCombination two_sweeps) = [3, 2]" by code_simp
  have e: "map (\<lambda>c. (map_of c ''temperature'', map_of c ''param''))
      (map (dict_of_zip (map (pure_name \<circ> fst) (ParameterCombination two_sweeps)))
                  (product_lists (map snd (ParameterCombination two_sweeps)))) =
       [(Some (VInt 25), Some (VInt 1)), (Some (VInt 25), Some (VInt 2)),
            (Some (VInt 26), Some (VInt 1)), (Some (VInt 26), Some (VInt 2)),
            (Some (VInt 27), Some (VInt 1)), (Some (VInt 27), Some (VInt 2))]"
    by code_simp
  have a': "all_ungrouped (ParameterCombination fixed_values)" by code_simp
  have b': "no_empty_list (ParameterCombination fixed_values)" by code_simp
  have c': "list_all (\<lambda>(name, vs). length vs = 1) (ParameterCombination fixed_values)" by code_simp
  have d': "dict_of_zip (map (pure_name \<circ> fst) (ParameterCombination fixed_values))
              (map (hd \<circ> snd) (ParameterCombination fixed_values)) =
            [(''temperature'', VInt 20), (''param_1'', VInt 7)]"
    by code_simp
  have n: "length (product_lists (map snd (ParameterCombination two_sweeps))) = 6"
    by code_simp
  have c1: "combinations (ParameterCombination two_sweeps) =
      Inr (map (dict_of_zip (map (pure_name \<circ> fst) (ParameterCombination two_sweeps)))
             (product_lists (map snd (ParameterCombination two_sweeps))))"
    using independent_product [OF a b] by (rule conjunct1)
  have c2: "combinations (ParameterCombination fixed_values) =
      Inr [dict_of_zip (map (pure_name \<circ> fst) (ParameterCombination fixed_values))
             (map (hd \<circ> snd) (ParameterCombination fixed_values))]"
    using independent_product [OF a' b'] c' by blast
  have r1: "map_sum id length (combinations (ParameterCombination two_sweeps)) = Inr 6"
    by (simp only: c1 map_sum.simps length_map n id_apply)
  have r2: "map_sum id (map (\<lambda>c. (map_of c ''temperature'', map_of c ''param'')))
        (combinations (ParameterCombination two_sweeps)) =
       Inr [(Some (VInt 25), Some (VInt 1)), (Some (VInt 25), Some (VInt 2)),
            (Some (VInt 26), Some (VInt 1)), (Some (VInt 26), Some (VInt 2)),
            (Some (VInt 27), Some (VInt 1)), (Some (VInt 27), Some (VInt 2))]"
    by (simp only: c1 map_sum.simps e)
  have r3: "combinations (ParameterCombination fixed_values) =
       Inr [[(''temperature'', VInt 20), (''param_1'', VInt 7)]]"
    by (simp only: c2 d')
  from a b s r1 r2 a' b' c' r3 show ?thesis by blast
qed

text \<open>
  Claim C2 as stated fails when some value list is empty.  Here the one swept parameter is
  untagged and has two values, so the claim promises two mappings; but the product over
  all value lists is empty, the mask has two entries, and indexing the empty array with it
  raises \<open>IndexError\<close>.
\<close>

theorem empty_list_index_error:
  "all_ungrouped (ParameterCombination empty_list_parameters)
   \<and> shape (ParameterCombination empty_list_parameters) = [2]
   \<and> combinations (ParameterCombination empty_list_parameters) = Inl IndexError"
  by code_simp

section \<open>The mask as a condition on positions\<close>

lemma zip_blocks:
  "length P = length M \<Longrightarrow>
   zip (concat (map (\<lambda>x. map ((#) x) P) vs)) (concat (map (\<lambda>i. map ((#) i) M) [n..<n + length vs])) =
   concat (map (\<lambda>(i, x). map (\<lambda>(p, m). (x # p, i # m)) (zip P M)) (enumerate n vs))"
proof (induction vs arbitrary: n)
  case Nil
  then show ?case by simp
next
  case (Cons v vs)
  have u: "[n..<n + length (v # vs)] = n # [Suc n..<Suc n + length vs]"
    using upt_conv_Cons [of n "n + Suc (length vs)"] by simp
  have z: "zip (map ((#) v) P) (map ((#) n) M) = map (\<lambda>(p, m). (v # p, n # m)) (zip P M)"
    by (simp add: zip_map_map)
  show ?case
    unfolding u using Cons.IH [OF Cons.prems, of "Suc n"] Cons.prems
    by (simp add: z)
qed

lemma length_product_multi:
  "no_empty_list pc \<Longrightarrow> length (product_lists (map snd pc)) = length (multi_indices (shape pc))"
  using length_all_combinations [of pc]
  by (simp add: all_combinations_def length_multi_indices prod_shape)

lemma no_empty_list_Cons:
  "no_empty_list ((name, vs) # pc) \<longleftrightarrow> vs \<noteq> [] \<and> no_empty_list pc"
  by (simp add: no_empty_list_def)

lemma shape_Cons:
  "shape ((name, vs) # pc) = (if length vs > 1 then length vs # shape pc else shape pc)"
  by (simp add: shape_def)

lemma multi_indices_Cons:
  "multi_indices (n # shp) = concat (map (\<lambda>i. map ((#) i) (multi_indices shp)) [0..<n])"
  by (simp add: multi_indices_def)

lemma indexed_product_Cons:
  "indexed_product ((name, vs) # pc) =
   concat (map (\<lambda>x. map ((#) x) (indexed_product pc)) (enumerate 0 vs))"
  by (simp add: indexed_product_def)

lemma swept_positions_Cons:
  "swept_positions ((name, vs) # pc) (i # pos) =
   (if length vs > 1 then i # swept_positions pc pos else swept_positions pc pos)"
  by (simp add: swept_positions_def)

lemma product_with_indices:
  "no_empty_list pc \<Longrightarrow>
   zip (product_lists (map snd pc)) (multi_indices (shape pc)) =
   map (\<lambda>t. (map snd t, swept_positions pc (map fst t))) (indexed_product pc)"
proof (induction pc)
  case Nil
  then show ?case
    by (simp add: shape_def multi_indices_def indexed_product_def swept_positions_def)
next
  case (Cons a pc)
  obtain name vs where a: "a = (name, vs)" by (cases a)
  from Cons.prems a have ne: "vs \<noteq> []" and np: "no_empty_list pc"
    by (simp_all add: no_empty_list_Cons)
  note IH = Cons.IH [OF np]
  show ?case
  proof (cases "length vs > 1")
    case False
    with ne obtain v where v: "vs = [v]"
      by (cases vs) auto
    show ?thesis
      unfolding a v
      by (simp add: shape_Cons indexed_product_Cons swept_positions_Cons zip_map1 IH o_def)
  next
    case True
    have len: "length (product_lists (map snd pc)) = length (multi_indices (shape pc))"
      using np by (rule length_product_multi)
    have "zip (product_lists (map snd (a # pc))) (multi_indices (shape (a # pc))) =
          concat (map (\<lambda>(i, x). map (\<lambda>(p, m). (x # p, i # m))
            (zip (product_lists (map snd pc)) (multi_indices (shape pc)))) (enumerate 0 vs))"
      unfolding a using True zip_blocks [OF len, of vs 0]
      by (simp add: shape_Cons multi_indices_Cons)
    also have "\<dots> = map (\<lambda>t. (map snd t, swept_positions (a # pc) (map fst t))) (indexed_product (a # pc))"
      unfolding a IH using True
      by (simp add: indexed_product_Cons map_concat o_def case_prod_unfold swept_positions_Cons)
    finally show ?thesis .
  qed
qed

lemma selected_positions:
  "length pos = length pc \<Longrightarrow>
   map snd (filter fst (zip (map (selects g) (zip_groups pc)) (swept_positions pc pos))) =
   group_positions pc g pos"
proof (induction pos pc rule: list_induct2)
  case Nil
  then show ?case
    by (simp add: zip_groups_def swept_positions_def group_positions_def)
next
  case (Cons i pos a pc)
  obtain name vs where a: "a = (name, vs)" by (cases a)
  have g: "group_positions ((name, vs) # pc) g (i # pos) =
      (if length vs > 1 \<and> selects g (get_zip_group name)
       then i # group_positions pc g pos else group_positions pc g pos)"
    by (simp add: group_positions_def)
  have z: "zip_groups ((name, vs) # pc) =
      (if length vs > 1 then get_zip_group name # zip_groups pc else zip_groups pc)"
    by (simp add: zip_groups_def)
  show ?case
    unfolding a using Cons.IH by (simp add: g z swept_positions_Cons)
qed

lemma valid_index_zipped:
  "length pos = length pc \<Longrightarrow> valid_index pc (swept_positions pc pos) = zipped pc pos"
  by (simp add: valid_index_def zipped_def on_diagonal_def selected_positions)

lemma length_product_tuple: "t \<in> set (product_lists xss) \<Longrightarrow> length t = length xss"
  by (induction xss arbitrary: t) auto

lemma length_indexed_tuple: "t \<in> set (indexed_product pc) \<Longrightarrow> length t = length pc"
  using length_product_tuple [of t "map (\<lambda>(name, vs). enumerate 0 vs) pc"]
  by (simp add: indexed_product_def)

lemma filter_zip_mapped:
  "map fst (filter snd (map (\<lambda>t. (f t, p t)) ts)) = map f (filter p ts)"
  by (induction ts) auto

text \<open>
  What \<open>combinations\<close> computes, in the words of the specification: the cartesian product of
  the value lists, of which a tuple is kept exactly when the members of every zip group
  sit at the same position; the tuple is then zipped with the pure names.
\<close>

lemma combinations_zipped:
  assumes "lengths_agree pc" and "no_empty_list pc"
  shows "combinations pc =
     Inr (map (\<lambda>t. dict_of_zip (map (pure_name \<circ> fst) pc) (map snd t))
            (filter (\<lambda>t. zipped pc (map fst t)) (indexed_product pc)))"
proof -
  let ?D = "dict_of_zip (map (pure_name \<circ> fst) pc)"
  have "zip (all_combinations pc) (map (valid_index pc) (multi_indices (shape pc))) =
        map (\<lambda>(c, idx). (?D c, valid_index pc idx))
          (zip (product_lists (map snd pc)) (multi_indices (shape pc)))"
    by (simp add: all_combinations_def zip_map_map)
  also have "\<dots> = map (\<lambda>t. (?D (map snd t), valid_index pc (swept_positions pc (map fst t))))
      (indexed_product pc)"
    by (simp add: product_with_indices [OF assms(2)] o_def)
  also have "\<dots> = map (\<lambda>t. (?D (map snd t), zipped pc (map fst t))) (indexed_product pc)"
    by (rule map_cong) (simp_all add: valid_index_zipped length_indexed_tuple)
  finally show ?thesis
    using assms by (simp add: combinations_general filter_zip_mapped)
qed

section \<open>A single zip group\<close>

lemma filter_enumerate_eq:
  "filter (\<lambda>(i, v). i = j) (enumerate n vs) =
   (if n \<le> j \<and> j < n + length vs then [(j, vs ! (j - n))] else [])"
proof (induction vs arbitrary: n)
  case Nil
  then show ?case by simp
next
  case (Cons v vs)
  show ?case
  proof (cases "j = n")
    case True
    with Cons.IH [of "Suc n"] show ?thesis by simp
  next
    case False
    have "vs ! (j - Suc n) = (v # vs) ! (j - n)" if "Suc n \<le> j"
      using that by (simp add: Suc_diff_le)
    with False Cons.IH [of "Suc n"] show ?thesis
      by auto
  qed
qed

lemma concat_selected:
  "concat (map (\<lambda>x. if p x then [f x] else []) xs) = map f (filter p xs)"
  by (induction xs) auto

lemma all_equal_Cons: "all_equal (i # ns) \<longleftrightarrow> list_all (\<lambda>n. n = i) ns"
  by (simp add: all_equal_def)

lemma swept_length_Cons:
  "swept_length L ((name, vs) # pc) \<longleftrightarrow> (length vs > 1 \<longrightarrow> length vs = L) \<and> swept_length L pc"
  by (simp add: swept_length_def)

lemma at_position_Cons:
  "at_position j ((name, vs) # pc) =
   (if length vs > 1 then (j, vs ! j) else (0, hd vs)) # at_position j pc"
  by (simp add: at_position_def)

lemma fixed_position:
  assumes "no_empty_list pc" and "swept_length L pc" and "j < L"
  shows "filter (\<lambda>t. list_all (\<lambda>i. i = j) (swept_positions pc (map fst t))) (indexed_product pc) =
         [at_position j pc]"
  using assms(1,2)
proof (induction pc)
  case Nil
  then show ?case
    by (simp add: indexed_product_def swept_positions_def at_position_def)
next
  case (Cons a pc)
  obtain name vs where a: "a = (name, vs)" by (cases a)
  from Cons.prems a have ne: "vs \<noteq> []" and np: "no_empty_list pc"
    and sl: "swept_length L pc" and lv: "length vs > 1 \<longrightarrow> length vs = L"
    by (simp_all add: no_empty_list_Cons swept_length_Cons)
  let ?P = "\<lambda>t. list_all (\<lambda>i. i = j) (swept_positions pc (map fst t))"
  note IH = Cons.IH [OF np sl]
  show ?case
  proof (cases "length vs > 1")
    case False
    with ne obtain v where v: "vs = [v]"
      by (cases vs) auto
    show ?thesis
      unfolding a v
      by (simp add: indexed_product_Cons swept_positions_Cons filter_map o_def IH at_position_Cons)
  next
    case True
    with lv \<open>j < L\<close> have jl: "j < length vs" by simp
    have "filter (\<lambda>t. list_all (\<lambda>i. i = j) (swept_positions (a # pc) (map fst t)))
            (indexed_product (a # pc)) =
          concat (map (\<lambda>x. if (\<lambda>(i, v). i = j) x then [x # at_position j pc] else [])
            (enumerate 0 vs))"
      unfolding a using True
      by (auto simp: indexed_product_Cons swept_positions_Cons filter_concat filter_map o_def IH
          intro!: arg_cong [where f = concat])
    also have "\<dots> = [(j, vs ! j) # at_position j pc]"
      using jl by (simp only: concat_selected filter_enumerate_eq) simp
    finally show ?thesis
      unfolding a using True by (simp add: at_position_Cons)
  qed
qed

lemma swept_Cons:
  "swept ((name, vs) # pc) = (if length vs > 1 then (name, vs) # swept pc else swept pc)"
  by (simp add: swept_def)

lemma map_enumerate_nth:
  "map f (enumerate 0 vs) = map (\<lambda>j. f (j, vs ! j)) [0..<length vs]"
  by (rule nth_equalityI) (simp_all add: nth_enumerate_eq)

lemma diagonal_tuples:
  assumes "no_empty_list pc" and "swept_length L pc"
  shows "filter (\<lambda>t. all_equal (swept_positions pc (map fst t))) (indexed_product pc) =
         (if swept pc = [] then [at_position 0 pc] else map (\<lambda>j. at_position j pc) [0..<L])"
  using assms
proof (induction pc)
  case Nil
  then show ?case
    by (simp add: indexed_product_def swept_positions_def at_position_def swept_def all_equal_def)
next
  case (Cons a pc)
  obtain name vs where a: "a = (name, vs)" by (cases a)
  from Cons.prems a have ne: "vs \<noteq> []" and np: "no_empty_list pc"
    and sl: "swept_length L pc" and lv: "length vs > 1 \<longrightarrow> length vs = L"
    by (simp_all add: no_empty_list_Cons swept_length_Cons)
  note IH = Cons.IH [OF np sl]
  show ?case
  proof (cases "length vs > 1")
    case False
    with ne obtain v where v: "vs = [v]"
      by (cases vs) auto
    show ?thesis
      unfolding a v
      by (simp add: indexed_product_Cons swept_positions_Cons filter_map o_def IH at_position_Cons
          swept_Cons)
  next
    case True
    with lv have l: "length vs = L" by simp
    have blk: "filter (\<lambda>t. all_equal (swept_positions (a # pc) (map fst t)))
                 (map ((#) x) (indexed_product pc)) = [x # at_position (fst x) pc]"
      if "x \<in> set (enumerate 0 vs)" for x
    proof -
      from that l have "fst x < L"
        by (auto simp: in_set_enumerate_eq)
      from fixed_position [OF np sl this] show ?thesis
        unfolding a using True
        by (simp add: filter_map o_def swept_positions_Cons all_equal_Cons)
    qed
    have "filter (\<lambda>t. all_equal (swept_positions (a # pc) (map fst t))) (indexed_product (a # pc)) =
          concat (map (\<lambda>x. [x # at_position (fst x) pc]) (enumerate 0 vs))"
      unfolding a indexed_product_Cons filter_concat map_map o_def
      using blk [unfolded a] by (intro arg_cong [where f = concat] map_cong) simp_all
    also have "\<dots> = map (\<lambda>x. x # at_position (fst x) pc) (enumerate 0 vs)"
      by (induction "enumerate 0 vs" arbitrary: vs) (simp_all add: concat_map_singleton)
    also have "\<dots> = map (\<lambda>j. at_position j (a # pc)) [0..<L]"
      unfolding a using True l by (simp add: map_enumerate_nth at_position_Cons)
    finally show ?thesis
      unfolding a using True by (simp add: swept_Cons)
  qed
qed

lemma single_group_swept:
  "single_group g L pc \<Longrightarrow> (name, vs) \<in> set (swept pc) \<Longrightarrow>
   get_zip_group name = Some g \<and> length vs = L"
  by (auto simp: single_group_def swept_def list_all_iff)

lemma single_group_swept_length: "single_group g L pc \<Longrightarrow> swept_length L pc"
  by (auto simp: single_group_def swept_length_def list_all_iff)

lemma single_group_lengths_agree:
  assumes "single_group g L pc"
  shows "lengths_agree pc"
proof -
  have "all_equal (map (\<lambda>(name, vs). length vs)
          (filter (\<lambda>(name, vs). selects g' (get_zip_group name)) (swept pc)))" for g'
    unfolding all_equal_iff using single_group_swept [OF assms] by fastforce
  then show ?thesis
    by (simp add: lengths_agree_def list_all_iff selected_lengths)
qed

lemma swept_positions_none: "swept pc = [] \<Longrightarrow> swept_positions pc pos = []"
proof -
  assume "swept pc = []"
  then have "\<forall>(name, vs)\<in>set pc. \<not> length vs > 1"
    by (auto simp: swept_def filter_empty_conv)
  then have "filter (\<lambda>((name, vs), i). length vs > 1) (zip pc pos) = []"
    by (auto simp: filter_empty_conv dest: set_zip_leftD)
  then show ?thesis by (simp add: swept_positions_def)
qed

lemma single_group_positions:
  assumes "single_group g L pc"
  shows "group_positions pc (Some g) pos = swept_positions pc pos"
proof -
  have "filter (\<lambda>((name, vs), i). length vs > 1 \<and> selects (Some g) (get_zip_group name)) (zip pc pos) =
        filter (\<lambda>((name, vs), i). length vs > 1) (zip pc pos)"
    using assms
    by (intro filter_cong [OF refl])
      (auto simp: single_group_def list_all_iff selects_def dest!: set_zip_leftD)
  then show ?thesis by (simp add: group_positions_def swept_positions_def)
qed

lemma single_group_zipped:
  assumes "single_group g L pc"
  shows "zipped pc pos = all_equal (swept_positions pc pos)"
proof (cases "swept pc = []")
  case True
  then show ?thesis
    by (simp add: zipped_def zip_groups_swept swept_positions_none all_equal_def)
next
  case False
  have "set (zip_groups pc) = {Some g}"
    using False single_group_swept [OF assms]
    by (cases "swept pc") (auto simp: zip_groups_swept)
  then show ?thesis
    by (simp add: zipped_def list_all_iff single_group_positions [OF assms])
qed

lemma map_snd_at_position: "map snd (at_position j pc) = map (\<lambda>(name, vs). pick j vs) pc"
  by (simp add: at_position_def pick_def case_prod_unfold)

lemma single_group_combinations:
  assumes "single_group g L pc" and "no_empty_list pc" and "swept pc \<noteq> []"
  shows "combinations pc =
     Inr (map (\<lambda>j. dict_of_zip (map (pure_name \<circ> fst) pc) (map (\<lambda>(name, vs). pick j vs) pc)) [0..<L])"
proof -
  have "filter (\<lambda>t. zipped pc (map fst t)) (indexed_product pc) = map (\<lambda>j. at_position j pc) [0..<L]"
    using diagonal_tuples [OF assms(2) single_group_swept_length [OF assms(1)]] assms(3)
    by (simp add: single_group_zipped [OF assms(1)])
  then show ?thesis
    by (simp add: combinations_zipped [OF single_group_lengths_agree [OF assms(1)] assms(2)]
        o_def map_snd_at_position)
qed

text \<open>
  Claim C3, amended by the conditions that the group's tag is not empty and that no value
  list is empty.  When the swept parameters are the \<open>k \<ge> 1\<close> members of one zip group, each
  with \<open>L\<close> values, \<open>combinations\<close> returns \<open>L\<close> mappings, the \<open>j\<close>-th taking every member at
  position \<open>j\<close>.  In general, when no group has members of different lengths, it returns the
  tuples of the cartesian product in which the members of each group sit at the same
  position: nothing restricts a swept parameter that carries no tag or is the only swept
  member of its group.
\<close>

theorem zip_group_diagonal:
  assumes "no_empty_list (ParameterCombination parameters)"
  shows "(single_group g L (ParameterCombination parameters)
            \<and> swept (ParameterCombination parameters) \<noteq> [] \<longrightarrow>
          combinations (ParameterCombination parameters) =
            Inr (map (\<lambda>j. dict_of_zip (map (pure_name \<circ> fst) (ParameterCombination parameters))
                        (map (\<lambda>(name, vs). pick j vs) (ParameterCombination parameters))) [0..<L])
          \<and> map_sum id length (combinations (ParameterCombination parameters)) = Inr L)
       \<and> (lengths_agree (ParameterCombination parameters) \<longrightarrow>
          combinations (ParameterCombination parameters) =
            Inr (map (\<lambda>t. dict_of_zip (map (pure_name \<circ> fst) (ParameterCombination parameters)) (map snd t))
                   (filter (\<lambda>t. zipped (ParameterCombination parameters) (map fst t))
                      (indexed_product (ParameterCombination parameters)))))"
proof (intro conjI impI)
  assume h: "single_group g L (ParameterCombination parameters)
      \<and> swept (ParameterCombination parameters) \<noteq> []"
  show c: "combinations (ParameterCombination parameters) =
      Inr (map (\<lambda>j. dict_of_zip (map (pure_name \<circ> fst) (ParameterCombination parameters))
                  (map (\<lambda>(name, vs). pick j vs) (ParameterCombination parameters))) [0..<L])"
    using single_group_combinations [OF conjunct1 [OF h] assms conjunct2 [OF h]] .
  show "map_sum id length (combinations (ParameterCombination parameters)) = Inr L"
    by (simp add: c)
next
  assume "lengths_agree (ParameterCombination parameters)"
  then show "combinations (ParameterCombination parameters) =
      Inr (map (\<lambda>t. dict_of_zip (map (pure_name \<circ> fst) (ParameterCombination parameters)) (map snd t))
             (filter (\<lambda>t. zipped (ParameterCombination parameters) (map fst t))
                (indexed_product (ParameterCombination parameters))))"
    using assms by (rule combinations_zipped)
qed

theorem zip_group_diagonal_witness:
  "no_empty_list (ParameterCombination corner_parameters)
   \<and> single_group ''corner'' 3 (ParameterCombination corner_parameters)
   \<and> swept (ParameterCombination corner_parameters) \<noteq> []
   \<and> combinations (ParameterCombination corner_parameters) =
       Inr [[(''param_1'', VInt 1), (''param_2'', VStr ''a''), (''mode'', VStr ''x'')],
            [(''param_1'', VInt 2), (''param_2'', VStr ''b''), (''mode'', VStr ''x'')],
            [(''param_1'', VInt 3), (''param_2'', VStr ''c''), (''mode'', VStr ''x'')]]
   \<and> no_empty_list (ParameterCombination mixed_parameters)
   \<and> lengths_agree (ParameterCombination mixed_parameters)
   \<and> combinations (ParameterCombination mixed_parameters) =
       Inr [[(''a'', VInt 1), (''t'', VInt 10), (''b'', VInt 3), (''c'', VInt 5)],
            [(''a'', VInt 1), (''t'', VInt 10), (''b'', VInt 3), (''c'', VInt 6)],
            [(''a'', VInt 1), (''t'', VInt 20), (''b'', VInt 3), (''c'', VInt 5)],
            [(''a'', VInt 1), (''t'', VInt 20), (''b'', VInt 3), (''c'', VInt 6)],
            [(''a'', VInt 2), (''t'', VInt 10), (''b'', VInt 4), (''c'', VInt 5)],
            [(''a'', VInt 2), (''t'', VInt 10), (''b'', VInt 4), (''c'', VInt 6)],
            [(''a'', VInt 2), (''t'', VInt 20), (''b'', VInt 4), (''c'', VInt 5)],
            [(''a'', VInt 2), (''t'', VInt 20), (''b'', VInt 4), (''c'', VInt 6)]]"
proof -
  let ?A = "ParameterCombination corner_parameters"
  let ?B = "ParameterCombination mixed_parameters"
  have a1: "no_empty_list ?A" by code_simp
  have a2: "single_group ''corner'' 3 ?A" by code_simp
  have a3: "swept ?A \<noteq> []" by code_simp
  have a4: "map (\<lambda>j. dict_of_zip (map (pure_name \<circ> fst) ?A) (map (\<lambda>(name, vs). pick j vs) ?A)) [0..<3] =
       [[(''param_1'', VInt 1), (''param_2'', VStr ''a''), (''mode'', VStr ''x'')],
        [(''param_1'', VInt 2), (''param_2'', VStr ''b''), (''mode'', VStr ''x'')],
        [(''param_1'', VInt 3), (''param_2'', VStr ''c''), (''mode'', VStr ''x'')]]"
    by code_simp
  have b1: "no_empty_list ?B" by code_simp
  have b2: "lengths_agree ?B" by code_simp
  have b3: "map (\<lambda>t. dict_of_zip (map (pure_name \<circ> fst) ?B) (map snd t))
              (filter (\<lambda>t. zipped ?B (map fst t)) (indexed_product ?B)) =
       [[(''a'', VInt 1), (''t'', VInt 10), (''b'', VInt 3), (''c'', VInt 5)],
        [(''a'', VInt 1), (''t'', VInt 10), (''b'', VInt 3), (''c'', VInt 6)],
        [(''a'', VInt 1), (''t'', VInt 20), (''b'', VInt 3), (''c'', VInt 5)],
        [(''a'', VInt 1), (''t'', VInt 20), (''b'', VInt 3), (''c'', VInt 6)],
        [(''a'', VInt 2), (''t'', VInt 10), (''b'', VInt 4), (''c'', VInt 5)],
        [(''a'', VInt 2), (''t'', VInt 10), (''b'', VInt 4), (''c'', VInt 6)],
        [(''a'', VInt 2), (''t'', VInt 20), (''b'', VInt 4), (''c'', VInt 5)],
        [(''a'', VInt 2), (''t'', VInt 20), (''b'', VInt 4), (''c'', VInt 6)]]"
    by code_simp
  have ra: "combinations ?A =
      Inr (map (\<lambda>j. dict_of_zip (map (pure_name \<circ> fst) ?A) (map (\<lambda>(name, vs). pick j vs) ?A)) [0..<3])"
    using zip_group_diagonal [OF a1, of "''corner''" 3] a2 a3 by blast
  have rb: "combinations ?B =
      Inr (map (\<lambda>t. dict_of_zip (map (pure_name \<circ> fst) ?B) (map snd t))
             (filter (\<lambda>t. zipped ?B (map fst t)) (indexed_product ?B)))"
    using zip_group_diagonal [OF b1] b2 by blast
  from a1 a2 a3 b1 b2 ra [unfolded a4] rb [unfolded b3] show ?thesis by blast
qed

text \<open>
  Claim C3 as stated fails for a group whose tag is empty.  Both names carry the suffix
  \<open>#zip_\<close> with the same (empty) group identifier and both have two values, so the claim
  promises two combinations; but \<open>name and name == zip_group\<close> is false for the empty
  string, no axis is restricted, and all four tuples of the product are returned.
\<close>

theorem empty_tag_not_zipped:
  "zip_groups (ParameterCombination empty_tag_parameters) = [Some [], Some []]
   \<and> shape (ParameterCombination empty_tag_parameters) = [2, 2]
   \<and> combinations (ParameterCombination empty_tag_parameters) =
       Inr [[(''a'', VInt 1), (''b'', VInt 3)], [(''a'', VInt 1), (''b'', VInt 4)],
            [(''a'', VInt 2), (''b'', VInt 3)], [(''a'', VInt 2), (''b'', VInt 4)]]"
  by code_simp

section \<open>What the call does to the caller's specification\<close>

























































section \<open>The shape of the output sequence\<close>

lemma paired_append: "paired xs \<Longrightarrow> paired ys \<Longrightarrow> paired (xs @ ys)"
  by (induction rule: paired.induct) (auto intro: paired.intros)

lemma paired_concat: "list_all paired xss \<Longrightarrow> paired (concat xss)"
  by (induction xss) (auto intro: paired.nil paired_append)

lemma setup_not_teardown: "is_setup_event x \<Longrightarrow> \<not> is_teardown_event x"
  by (auto simp: is_setup_event_def is_teardown_event_def split: val.splits list.splits)

lemma setup_not_combination: "is_setup_event x \<Longrightarrow> \<not> is_test_combination x"
  by (simp add: is_test_combination_def)

lemma teardown_not_combination: "is_teardown_event x \<Longrightarrow> \<not> is_test_combination x"
  by (simp add: is_test_combination_def)

lemma filter_combinations_setup:
  "list_all is_test_combination cs \<Longrightarrow> filter is_setup_event cs = []"
  by (auto simp: list_all_iff filter_empty_conv dest: setup_not_combination)

lemma filter_combinations_teardown:
  "list_all is_test_combination cs \<Longrightarrow> filter is_teardown_event cs = []"
  by (auto simp: list_all_iff filter_empty_conv dest: teardown_not_combination)

lemma paired_counts:
  "paired xs \<Longrightarrow> length (filter is_setup_event xs) = length (filter is_teardown_event xs)"
  by (induction rule: paired.induct)
    (auto simp: filter_combinations_setup filter_combinations_teardown dest: setup_not_teardown)

lemma guarded_others:
  "list_all (\<lambda>x. \<not> opens x \<and> \<not> closes x) cs \<Longrightarrow>
   guarded opens closes True (cs @ xs) = guarded opens closes True xs"
  by (induction cs) auto

lemma combinations_no_events:
  "list_all is_test_combination cs \<Longrightarrow>
   list_all (\<lambda>x. \<not> is_setup_event x \<and> \<not> is_teardown_event x) cs"
  by (auto simp: list_all_iff is_test_combination_def)

lemma paired_guarded:
  "paired xs \<Longrightarrow> (\<And>st. guarded is_setup_event is_teardown_event st ys) \<Longrightarrow>
   guarded is_setup_event is_teardown_event st (xs @ ys)"
proof (induction arbitrary: st rule: paired.induct)
  case nil
  then show ?case by simp
next
  case (pair t s xs)
  then show ?case by simp
next
  case (run s t cs xs)
  have "list_all (\<lambda>x. \<not> is_setup_event x \<and> \<not> is_teardown_event x) cs"
    using run.hyps(3) by (rule combinations_no_events)
  from guarded_others [OF this] run show ?case
    by (simp add: setup_not_teardown)
qed

lemma paired_guarded_rev:
  "paired xs \<Longrightarrow> (\<And>st. guarded is_teardown_event is_setup_event st zs) \<Longrightarrow>
   guarded is_teardown_event is_setup_event st (rev xs @ zs)"
proof (induction arbitrary: st zs rule: paired.induct)
  case nil
  then show ?case by simp
next
  case (pair t s xs)
  have "guarded is_teardown_event is_setup_event st' (s # t # zs)" for st'
    using pair.hyps pair.prems by (simp add: setup_not_teardown)
  from pair.IH [OF this] show ?case by simp
next
  case (run s t cs xs)
  have "list_all (\<lambda>x. \<not> is_teardown_event x \<and> \<not> is_setup_event x) (rev cs)"
    using combinations_no_events [OF run.hyps(3)] by (auto simp: list_all_iff)
  from guarded_others [OF this]
  have "guarded is_teardown_event is_setup_event st' (t # rev cs @ s # zs)" for st'
    using run.hyps run.prems by (simp add: setup_not_teardown)
  from run.IH [OF this] show ?case by simp
qed

lemma map_err_Inr:
  "map_err f xs = Inr ys \<Longrightarrow> list_all2 (\<lambda>x y. f x = Inr y) xs ys"
  by (induction xs arbitrary: ys) (auto split: sum.splits)

lemma map_err_all:
  assumes "map_err f xs = Inr ys" and "\<And>x y. f x = Inr y \<Longrightarrow> P y"
  shows "list_all P ys"
proof -
  have "P y" if "y \<in> set ys" for y
  proof -
    from that obtain i where "i < length ys" "ys ! i = y"
      by (auto simp: in_set_conv_nth)
    with map_err_Inr [OF assms(1)] have "f (xs ! i) = Inr y"
      by (auto simp: list_all2_conv_all_nth)
    then show ?thesis by (rule assms(2))
  qed
  then show ?thesis by (simp add: list_all_iff)
qed

lemma is_setup_event_setup [simp]: "is_setup_event (setup_event x)"
  by (simp add: is_setup_event_def setup_event_def)

lemma is_teardown_event_teardown [simp]: "is_teardown_event (teardown_event x)"
  by (simp add: is_teardown_event_def teardown_event_def)

lemma yield_is_combination: "is_test_combination (VDict (dict_set ''yield'' y c))"
proof -
  have "map_of (dict_set ''yield'' y c) ''yield'' = Some y"
    by (simp add: dict_set_def update_conv')
  then have "dict_set ''yield'' y c \<noteq> [(''setup'', x)]"
    and "dict_set ''yield'' y c \<noteq> [(''teardown'', x)]" for x
    by auto
  then show ?thesis
    by (auto simp: is_test_combination_def is_dict_def is_setup_event_def is_teardown_event_def
        split: list.splits)
qed

lemma rollover_events_paired: "rollover_events outer_parameters ist = Inr r \<Longrightarrow> paired r"
  by (auto simp: rollover_events_def Let_def split: if_splits sum.splits
      intro!: paired.nil paired.pair)

lemma rollovers_paired:
  assumes "rollovers sk outer_parameters = Inr rs"
  shows "paired rs"
proof -
  from assms obtain rss where r: "map_err (rollover_events outer_parameters)
      (enumerate 0 (zip (setups sk) (teardowns sk))) = Inr rss" and rs: "rs = concat rss"
    by (auto simp: rollovers_def split: sum.splits)
  have "list_all paired rss"
    using r by (rule map_err_all) (rule rollover_events_paired)
  with rs show ?thesis by (simp add: paired_concat)
qed

lemma test_events_paired:
  assumes "test_events sk outer_parameters ip = Inr r"
  shows "paired r"
proof -
  from assms obtain s t y c where r: "r = [setup_event s] @ map (\<lambda>c. VDict (dict_set ''yield'' y c)) c
      @ [teardown_event t]"
    by (auto simp: test_events_def Let_def split: sum.splits)
  have "list_all is_test_combination (map (\<lambda>c. VDict (dict_set ''yield'' y c)) c)"
    by (simp add: list_all_iff yield_is_combination)
  then have "paired (setup_event s # map (\<lambda>c. VDict (dict_set ''yield'' y c)) c @ teardown_event t # [])"
    by (intro paired.run paired.nil) simp_all
  with r show ?thesis by simp
qed

lemma outer_events_paired:
  assumes "outer_events sk oc = Inr b"
  shows "paired b"
proof -
  from assms obtain rs ts where rs: "rollovers sk (merge_all oc) = Inr rs"
    and ts: "map_err (test_events sk (merge_all oc)) (enumerate 0 (tests sk)) = Inr ts"
    and b: "b = rs @ concat ts"
    by (auto simp: outer_events_def Let_def split: sum.splits)
  have "list_all paired ts"
    using ts by (rule map_err_all) (rule test_events_paired)
  with rollovers_paired [OF rs] b show ?thesis
    by (simp add: paired_append paired_concat)
qed

lemma generate_shape:
  assumes "generate sk = Inr out"
  shows "\<exists>mid. paired mid \<and>
     out = setup_event (VList (setups sk)) # mid @ [teardown_event (VList (rev (teardowns sk)))]"
proof -
  from assms obtain blocks where
    bl: "map_err (outer_events sk) (product_lists (outer_combinations sk)) = Inr blocks"
    and out: "out = [setup_event (VList (setups sk))] @ concat blocks
                @ [teardown_event (VList (rev (teardowns sk)))]"
    by (auto simp: generate_def split: sum.splits)
  have "list_all paired blocks"
    using bl by (rule map_err_all) (rule outer_events_paired)
  then have "paired (concat blocks)" by (rule paired_concat)
  with out show ?thesis by auto
qed

lemma astuple_tests:
  assumes "astuple parameters ps sk = Inr sk'"
  shows "\<exists>ts. sk' = sk\<lparr>tests := ts\<rparr>"
proof (cases "\<exists>this_level. map_of parameters ''main'' = Some (VDict this_level)")
  case True
  with assms show ?thesis
    by (auto simp: astuple_def split: if_splits)
next
  case False
  with assms have "sk' = sk"
    by (auto simp: astuple_def split: if_splits option.splits val.splits)
  then have "sk' = sk\<lparr>tests := tests sk\<rparr>" by simp
  then show ?thesis ..
qed

lemma get_combinations_generate:
  assumes "get_combinations parameters = (Inr out, ps)"
  shows "\<exists>sk ts. extract_skeleton parameters = (Inr sk, ps)
           \<and> generate (sk\<lparr>tests := ts\<rparr>) = Inr out"
proof -
  from assms obtain sk sk' where sk: "extract_skeleton parameters = (Inr sk, ps)"
    and a: "astuple parameters ps sk = Inr sk'" and g: "generate sk' = Inr out"
    by (auto simp: get_combinations_def split: sum.splits prod.splits)
  from astuple_tests [OF a] obtain ts where "sk' = sk\<lparr>tests := ts\<rparr>" ..
  with sk g show ?thesis by blast
qed

text \<open>
  What holds of the sequence on every specification on which \<open>get_combinations\<close> succeeds,
  whatever the number of outer levels: it has as many setup events as teardown events; it
  starts with the setup event that holds every level's setup and ends with the teardown
  event that holds every level's teardown in reverse order; the event nearest before a
  test combination is a setup event, and the event nearest after it is a teardown event
  (each test's combinations stand between that test's setup and teardown events).  Where
  the teardown and setup events of the levels stand between the tests is the subject of
  the next theorem.
\<close>

theorem sequence_balanced:
  assumes "get_combinations parameters = (Inr out, ps)"
  shows "length (filter is_setup_event out) = length (filter is_teardown_event out)
     \<and> (\<exists>sk. fst (extract_skeleton parameters) = Inr sk
            \<and> hd out = setup_event (VList (setups sk))
            \<and> last out = teardown_event (VList (rev (teardowns sk))))
     \<and> guarded is_setup_event is_teardown_event False out
     \<and> guarded is_teardown_event is_setup_event False (rev out)"
proof -
  from get_combinations_generate [OF assms] obtain sk ts where
    sk: "extract_skeleton parameters = (Inr sk, ps)"
    and g: "generate (sk\<lparr>tests := ts\<rparr>) = Inr out"
    by blast
  from generate_shape [OF g] obtain mid where mid: "paired mid"
    and out: "out = setup_event (VList (setups sk)) # mid @ [teardown_event (VList (rev (teardowns sk)))]"
    by auto
  let ?S = "setup_event (VList (setups sk))"
  let ?T = "teardown_event (VList (rev (teardowns sk)))"
  have nS: "\<not> is_teardown_event ?S" and nT: "\<not> is_setup_event ?T"
    using setup_not_teardown [of ?S] setup_not_teardown [of ?T] by auto
  have c: "length (filter is_setup_event out) = length (filter is_teardown_event out)"
    using paired_counts [OF mid] nS nT by (simp add: out)
  have e: "hd out = ?S \<and> last out = ?T"
    by (simp add: out)
  have "guarded is_setup_event is_teardown_event st [?T]" for st
    by simp
  from paired_guarded [OF mid this]
  have f: "guarded is_setup_event is_teardown_event False out"
    by (simp add: out)
  have "guarded is_teardown_event is_setup_event st [?S]" for st
    using nS by simp
  from paired_guarded_rev [OF mid this]
  have b: "guarded is_teardown_event is_setup_event False (rev out)"
    by (simp add: out)
  from c e f b sk show ?thesis by auto
qed

theorem sequence_balanced_witness:
  "get_combinations example_spec =
     (Inr (projr (fst (get_combinations example_spec))), snd (get_combinations example_spec))
   \<and> length (filter is_setup_event (projr (fst (get_combinations example_spec)))) = 4
   \<and> length (filter is_setup_event (projr (fst (get_combinations example_spec)))) =
       length (filter is_teardown_event (projr (fst (get_combinations example_spec))))
   \<and> guarded is_setup_event is_teardown_event False (projr (fst (get_combinations example_spec)))
   \<and> guarded is_teardown_event is_setup_event False
        (rev (projr (fst (get_combinations example_spec))))"
proof -
  have "\<not> isl (fst (get_combinations example_spec))" by code_simp
  then have h: "get_combinations example_spec =
     (Inr (projr (fst (get_combinations example_spec))), snd (get_combinations example_spec))"
    by (cases "get_combinations example_spec") (auto simp: isl_def)
  have n: "length (filter is_setup_event (projr (fst (get_combinations example_spec)))) = 4"
    by code_simp
  from sequence_balanced [OF h] h n show ?thesis by blast
qed

text \<open>
  Claim C1, at an input where the code does not do what the claim says.  The comment in
  \<open>get_combinations\<close> reads \<open>if a new loop has started, append teardown and setup\<close>, and
  the claim has no level's teardown event emitted before the test combinations of that
  level's current iteration.  On the specification with three outer levels, elements 18
  and 23 of the output are the test combinations of the outer tuples \<open>(1,0,0)\<close> and
  \<open>(1,0,1)\<close>, which belong to the same iteration of level 1; element 20, between them, is
  the teardown event of level 1, emitted although no loop has started.  Element 15 is a
  teardown event of level 1 too, emitted although the setup of level 2 opened by element 8
  has not been closed: elements 9 to 14 are a test's setup event, combination and teardown
  event, twice.  Both come from the rollover test \<open>outer_index(i) == 0 and
  outer_index(i-1) != 0\<close>, which with three outer levels is not the test for a new loop.
\<close>

theorem teardown_inside_iteration:
  "case fst (get_combinations deep_spec) of
     Inl e \<Rightarrow> False
   | Inr out \<Rightarrow>
       map (\<lambda>i. field ''__index'' (out ! i)) [18, 23] =
         [Some (VList [VInt 1, VInt 0, VInt 0, VInt 0]), Some (VList [VInt 1, VInt 0, VInt 1, VInt 0])]
       \<and> is_test_combination (out ! 18) \<and> is_test_combination (out ! 23)
       \<and> out ! 20 = teardown_event (VDict [(''close'', VInt 1)])
       \<and> out ! 8 = setup_event (VDict [(''open'', VInt 2)])
       \<and> map (\<lambda>i. out ! i = teardown_event (VDict [(''close'', VInt 2)])) [9, 10, 11, 12, 13, 14] =
            [False, False, False, False, False, False]
       \<and> out ! 15 = teardown_event (VDict [(''close'', VInt 1)])"
  by code_simp

section \<open>A zip mismatch aborts the whole call\<close>













































section \<open>The composite index\<close>


lemma digit_char_digit: "d < 10 \<Longrightarrow> digit_char d \<in> set ''0123456789''"
proof -
  assume "d < 10"
  then have "d \<in> set [0..<10]" by simp
  moreover have "list_all (\<lambda>d. digit_char d \<in> set ''0123456789'') [0..<10]"
    by code_simp
  ultimately show ?thesis
    unfolding list_all_iff by blast
qed

lemma last_str_nat: "last (str_nat n) = digit_char (n mod 10)"
  by (subst str_nat.simps) simp

lemma str_nat_not_test: "str_nat n \<noteq> ''test''"
proof
  assume "str_nat n = ''test''"
  then have "last (str_nat n) = CHR ''t''" by simp
  then have "digit_char (n mod 10) = CHR ''t''" by (simp add: last_str_nat)
  moreover have "digit_char (n mod 10) \<in> set ''0123456789''"
    by (rule digit_char_digit) simp
  ultimately show False by auto
qed

lemma index_key_other: "index_key l \<noteq> ''__index''" "index_key l \<noteq> ''__index_test''"
  "index_key l \<noteq> ''yield''"
  using str_nat_not_test [of l] by (auto simp: index_key_def)


lemma map_of_dict_set: "map_of (dict_set k v d) k' = (if k' = k then Some v else map_of d k')"
  by (simp add: dict_set_def update_conv')

lemma map_err_dict_get:
  "map_err (dict_get d) ks = Inr vs \<Longrightarrow> map Some vs = map (map_of d) ks"
  by (induction ks arbitrary: vs) (auto simp: dict_get_def split: sum.splits option.splits)

lemma index_combination_composite:
  assumes "index_combination n (Some t) (j, c0) = Inr c"
  shows "map_of c ''__index_test'' = Some (VInt (int t))
     \<and> map_of c (index_key n) = Some (VInt (int j))
     \<and> (\<exists>ixs. map_of c ''__index'' = Some (VList ixs)
            \<and> map Some ixs = map (map_of c \<circ> index_key) [0..<n + 1])"
proof -
  let ?c1 = "dict_set (index_key n) (VInt (int j)) c0"
  from assms obtain ixs where ixs: "map_err (dict_get ?c1) (map index_key [0..<n + 1]) = Inr ixs"
    and c: "c = dict_set ''__index_test'' (VInt (int t)) (dict_set ''__index'' (VList ixs) ?c1)"
    by (auto simp: index_combination_def Let_def split: sum.splits)
  have k: "map_of c (index_key l) = map_of ?c1 (index_key l)" for l
    unfolding c using index_key_other [of l] by (simp add: map_of_dict_set)
  have "map Some ixs = map (map_of c \<circ> index_key) [0..<n + 1]"
    using map_err_dict_get [OF ixs] by (simp add: k o_def)
  moreover have "map_of c ''__index'' = Some (VList ixs)"
    unfolding c by (simp add: map_of_dict_set)
  moreover have "map_of c ''__index_test'' = Some (VInt (int t))"
    unfolding c by (simp add: map_of_dict_set)
  moreover have "map_of c (index_key n) = Some (VInt (int j))"
    by (simp add: k map_of_dict_set)
  ultimately show ?thesis by blast
qed

text \<open>
  What holds of the index keys on every input: in each combination that the run of leaf
  test number \<open>i\<close> emits, \<open>__index_test\<close> is \<open>i\<close> and \<open>__index\<close> lists the combination's values
  under \<open>__index_0\<close> to \<open>__index_n\<close>, where \<open>n\<close> is \<open>len(setups)\<close>, the number of resolved setup
  entries.
\<close>

lemma test_events_indexed:
  assumes "test_events sk outer_parameters (i, p) = Inr run" and "x \<in> set run"
    and "is_test_combination x"
  shows "field ''__index_test'' x = Some (VInt (int i))
     \<and> (\<exists>ixs. field ''__index'' x = Some (VList ixs)
            \<and> map Some ixs = map (\<lambda>l. field (index_key l) x) [0..<length (setups sk) + 1])"
proof -
  let ?n = "length (setups sk)"
  let ?inner = "snd (dict_pop ''yield'' (yield_values sk)
      (snd (dict_pop ''teardown'' VNone (snd (dict_pop ''setup'' VNone p)))))"
  let ?pc = "ParameterCombination (dict_merge outer_parameters ?inner)"
  define s where "s = fst (dict_pop ''setup'' VNone p)"
  define t where "t = fst (dict_pop ''teardown'' VNone (snd (dict_pop ''setup'' VNone p)))"
  define y where "y = fst (dict_pop ''yield'' (yield_values sk)
      (snd (dict_pop ''teardown'' VNone (snd (dict_pop ''setup'' VNone p)))))"
  from assms(1) obtain c where
    c: "get_indexed_combinations ?pc ?n (Some i) = Inr c"
    and run: "run = [setup_event s] @ map (\<lambda>c. VDict (dict_set ''yield'' y c)) c @ [teardown_event t]"
    unfolding s_def t_def y_def
    by (cases "get_indexed_combinations ?pc ?n (Some i)") (simp_all add: test_events_def Let_def)
  from assms(2,3) run obtain c' where c': "c' \<in> set c" and x: "x = VDict (dict_set ''yield'' y c')"
    using setup_not_combination [of "setup_event s"] teardown_not_combination [of "teardown_event t"]
    by auto
  from c obtain cs where m: "map_err (index_combination ?n (Some i)) (enumerate 0 cs) = Inr c"
    by (auto simp: get_indexed_combinations_def split: sum.splits)
  from c' obtain k where k: "k < length c" "c ! k = c'"
    by (auto simp: in_set_conv_nth)
  with map_err_Inr [OF m] have "index_combination ?n (Some i) (enumerate 0 cs ! k) = Inr c'"
    by (auto simp: list_all2_conv_all_nth)
  then have "index_combination ?n (Some i) (fst (enumerate 0 cs ! k), snd (enumerate 0 cs ! k)) = Inr c'"
    by simp
  from index_combination_composite [OF this] obtain ixs where
    t: "map_of c' ''__index_test'' = Some (VInt (int i))"
    and ix: "map_of c' ''__index'' = Some (VList ixs)"
      "map Some ixs = map (map_of c' \<circ> index_key) [0..<?n + 1]"
    by blast
  have f: "field (index_key l) x = map_of c' (index_key l)" for l
    unfolding x using index_key_other [of l] by (simp add: field_def map_of_dict_set)
  have "field ''__index_test'' x = Some (VInt (int i))"
    unfolding x using t by (simp add: field_def map_of_dict_set)
  moreover have "field ''__index'' x = Some (VList ixs)"
    unfolding x using ix(1) by (simp add: field_def map_of_dict_set)
  moreover have "map Some ixs = map (\<lambda>l. field (index_key l) x) [0..<?n + 1]"
    using ix(2) by (simp add: f o_def)
  ultimately show ?thesis by blast
qed

end
